theory Spec2Isabelle
  imports Main "HOL-Library.Sublist" "HOL-Library.Multiset"
begin

section \<open>JavaScript values\<close>

text \<open>
  The program is a single Vue component. The variant modelled is the one with the debounced
  output, the XML files and the reordering of attachments (in \<open>README.md\<close>, after the
  readme proper); \<open>src/App.vue\<close> is an earlier variant whose code for compiling, selecting,
  renaming and deleting is the same.

  A JavaScript string is modelled as a \<^typ>\<open>string\<close>: a list of \<^typ>\<open>char\<close>, each standing
  for one code unit in the range 0..255. A value of type \<open>string | null\<close> is a
  \<^typ>\<open>string option\<close>. Identifiers come from \<open>Date.now()\<close> and \<open>Math.random()\<close>; every
  operation that generates one takes the generated identifier as an argument.
\<close>

text \<open>\<open>s || d\<close> on strings: the empty string is falsy.\<close>

definition js_or :: "string \<Rightarrow> string \<Rightarrow> string" where
  "js_or s d = (if s = [] then d else s)"

text \<open>\<open>if (v)\<close> for \<open>v : string | null\<close>: \<open>null\<close> and the empty string are falsy.\<close>

definition truthy :: "string option \<Rightarrow> bool" where
  "truthy v = (case v of None \<Rightarrow> False | Some s \<Rightarrow> s \<noteq> [])"

text \<open>
  \<open>String.prototype.trim\<close> strips white space and line terminators from both ends; among
  the code units 0..255 these are TAB, LF, VT, FF, CR, SPACE and NBSP.
\<close>

definition is_js_space :: "char \<Rightarrow> bool" where
  "is_js_space c = (c \<in> set [CHR 0x09, CHR 0x0A, CHR 0x0B, CHR 0x0C, CHR 0x0D, CHR 0x20, CHR 0xA0])"

definition trim :: "string \<Rightarrow> string" where
  "trim s = rev (dropWhile is_js_space (rev (dropWhile is_js_space s)))"

text \<open>\<open>Array.prototype.findIndex\<close>; \<open>None\<close> stands for the result \<open>-1\<close>.\<close>

fun findIndex :: "('a \<Rightarrow> bool) \<Rightarrow> 'a list \<Rightarrow> nat option" where
  "findIndex P [] = None"
| "findIndex P (x # xs) = (if P x then Some 0 else map_option Suc (findIndex P xs))"

text \<open>\<open>xs.splice(i, 1)\<close> for an index inside the array: the array left, and the element removed.\<close>

definition splice_remove :: "nat \<Rightarrow> 'a list \<Rightarrow> 'a list" where
  "splice_remove i xs = take i xs @ drop (Suc i) xs"

text \<open>\<open>xs.splice(j, 0, x)\<close>: a start index beyond the end is clamped to the length.\<close>

definition splice_insert :: "nat \<Rightarrow> 'a \<Rightarrow> 'a list \<Rightarrow> 'a list" where
  "splice_insert j x xs = take j xs @ x # drop j xs"

text \<open>The decimal numeral of a number, as template literals print it.\<close>

definition digit_char :: "nat \<Rightarrow> char" where
  "digit_char d = char_of (48 + d)"

fun toString :: "nat \<Rightarrow> string" where
  "toString n = (if n < 10 then [digit_char n] else toString (n div 10) @ [digit_char (n mod 10)])"

declare toString.simps [simp del]

section \<open>The document model\<close>

text \<open>
  \<open>interface Attachment { id: string; name: string; content: string }\<close>. The fields carry
  the prefix \<open>att_\<close> because \<open>id\<close> is a constant of HOL.
\<close>

record attachment =
  att_id :: string
  att_name :: string
  att_content :: string

text \<open>A \<open>File\<close> of the browser: its name, its size in bytes, and its bytes decoded as text.\<close>

record jsfile =
  file_name :: string
  file_size :: nat
  file_text :: string

text \<open>Messages shown with \<open>alert\<close>; the message texts are abstracted to constructors.\<close>

datatype alert = FileTooLarge string | ClipboardReadFailed | XmlParseFailed

text \<open>The value of \<open>copyTipMessage\<close>: empty, the success text, or the failure text.\<close>

datatype tip = NoTip | CopiedTip | CopyFailedTip

text \<open>What a timer of \<open>setTimeout\<close> runs when it fires.\<close>

datatype callback = Recompute | HideCopyTip

text \<open>
  The state of the component: its refs, then the environment it acts on (the clipboard, the
  alerts shown, the clock and the timers of the event loop). \<open>timer\<close> is the variable closed
  over by \<open>debounce\<close>. A pending timer is its identifier, its deadline and its callback.
  \<open>recomputed\<close> is a trace for stating properties: the time and the output of every run of
  the debounced function.
\<close>

record app =
  promptText :: string
  attachments :: "attachment list"
  selectedAttachmentId :: "string option"
  attachmentName :: string
  attachmentContent :: string
  showPreview :: bool
  showCopyTip :: bool
  copyTipMessage :: tip
  editingAttachmentId :: "string option"
  editingAttachmentName :: string
  isOutputStable :: bool
  debouncedOutputMarkdown :: string
  draggedItem :: "string option"
  draggedOverItem :: "string option"
  clipboard :: string
  alerts :: "alert list"
  timer :: "nat option"
  pending :: "(nat \<times> nat \<times> callback) list"
  timer_count :: nat
  now :: nat
  recomputed :: "(nat \<times> string) list"

definition initial :: app where
  "initial = \<lparr> promptText = [], attachments = [], selectedAttachmentId = None,
     attachmentName = [], attachmentContent = [], showPreview = False, showCopyTip = False,
     copyTipMessage = NoTip, editingAttachmentId = None, editingAttachmentName = [],
     isOutputStable = True, debouncedOutputMarkdown = [], draggedItem = None,
     draggedOverItem = None, clipboard = [], alerts = [], timer = None, pending = [],
     timer_count = 0, now = 0, recomputed = [] \<rparr>"

section \<open>The output compiler\<close>

text \<open>
  The body of \<open>outputMarkdown\<close> (and of the function debounced as \<open>updateDebouncedOutput\<close>):
  \<open>forEach\<close> appends one section per attachment to \<open>output\<close>.
\<close>

definition compile :: "string \<Rightarrow> attachment list \<Rightarrow> string" where
  "compile p atts =
     (let output = p @ ''\<newline>\<newline>'' in
      if length atts > 0
      then foldl (\<lambda>output a. output @ ''### '' @ att_name a @ ''\<newline>```\<newline>'' @
                    att_content a @ ''\<newline>```\<newline>\<newline>'') output atts
      else output)"

definition outputMarkdown :: "app \<Rightarrow> string" where
  "outputMarkdown st = compile (promptText st) (attachments st)"

section \<open>Operations on attachments\<close>

definition untitled :: "nat \<Rightarrow> string" where
  "untitled n = ''Untitled_'' @ toString n"

text \<open>
  \<open>addFromClipboard\<close>: the second argument is the outcome of \<open>clipboard.readText()\<close>,
  \<open>None\<close> when the promise is rejected.
\<close>

definition addFromClipboard :: "string \<Rightarrow> string option \<Rightarrow> app \<Rightarrow> app" where
  "addFromClipboard new_id result st =
     (case result of
        None \<Rightarrow> st\<lparr>alerts := alerts st @ [ClipboardReadFailed]\<rparr>
      | Some text \<Rightarrow>
          if text \<noteq> [] then
            st\<lparr>attachments := attachments st @
              [\<lparr>att_id = new_id, att_name = untitled (length (attachments st) + 1),
                att_content = text\<rparr>]\<rparr>
          else st)"

definition maxSize :: nat where
  "maxSize = 1024 * 1024"

text \<open>\<open>handleDrop\<close> for one dropped file, with the \<open>onload\<close> of its reader run at once.\<close>

definition handleDrop :: "string \<Rightarrow> jsfile \<Rightarrow> app \<Rightarrow> app" where
  "handleDrop new_id f st =
     (if file_size f > maxSize then st\<lparr>alerts := alerts st @ [FileTooLarge (file_name f)]\<rparr>
      else st\<lparr>attachments := attachments st @
              [\<lparr>att_id = new_id, att_name = file_name f, att_content = js_or (file_text f) []\<rparr>]\<rparr>)"

definition selectAttachment :: "string \<Rightarrow> app \<Rightarrow> app" where
  "selectAttachment i st =
     (case find (\<lambda>a. att_id a = i) (attachments st) of
        None \<Rightarrow> st
      | Some a \<Rightarrow> st\<lparr>selectedAttachmentId := Some i, attachmentContent := att_content a\<rparr>)"

definition startEditingName :: "string \<Rightarrow> string \<Rightarrow> app \<Rightarrow> app" where
  "startEditingName i n st =
     (selectAttachment i st)\<lparr>editingAttachmentId := Some i, editingAttachmentName := n\<rparr>"

text \<open>Typing into the input bound to \<open>editingAttachmentName\<close> by \<open>v-model\<close>.\<close>

definition inputEditingName :: "string \<Rightarrow> app \<Rightarrow> app" where
  "inputEditingName n st = st\<lparr>editingAttachmentName := n\<rparr>"

definition saveAttachmentName :: "app \<Rightarrow> app" where
  "saveAttachmentName st =
     (if truthy (editingAttachmentId st) then
        (let index = findIndex (\<lambda>a. Some (att_id a) = editingAttachmentId st) (attachments st);
             st' = (case index of
                      None \<Rightarrow> st
                    | Some k \<Rightarrow>
                        if trim (editingAttachmentName st) \<noteq> [] then
                          st\<lparr>attachments := (attachments st)
                            [k := (attachments st ! k)\<lparr>att_name := trim (editingAttachmentName st)\<rparr>]\<rparr>
                        else st)
         in st'\<lparr>editingAttachmentId := None\<rparr>)
      else st)"

text \<open>
  The rename of the specification, as the interface performs it: a double click on the
  name starts the edit, the new name is typed, and losing focus or Enter saves it.
\<close>

definition shownName :: "string \<Rightarrow> app \<Rightarrow> string" where
  "shownName i st = (case find (\<lambda>a. att_id a = i) (attachments st) of None \<Rightarrow> [] | Some a \<Rightarrow> att_name a)"

definition renameAttachment :: "string \<Rightarrow> string \<Rightarrow> app \<Rightarrow> app" where
  "renameAttachment i newName st =
     saveAttachmentName (inputEditingName newName (startEditingName i (shownName i st) st))"

text \<open>
  Typing into the editor of the selected attachment: \<open>v-model\<close> sets \<open>attachmentContent\<close>
  and the \<open>input\<close> handler calls \<open>updateAttachmentContent\<close>.
\<close>

definition updateAttachmentContent :: "string \<Rightarrow> app \<Rightarrow> app" where
  "updateAttachmentContent c st =
     (if truthy (selectedAttachmentId st) then
        (case findIndex (\<lambda>a. Some (att_id a) = selectedAttachmentId st) (attachments st) of
           None \<Rightarrow> st
         | Some k \<Rightarrow> st\<lparr>attachments := (attachments st)[k := (attachments st ! k)\<lparr>att_content := c\<rparr>]\<rparr>)
      else st)"

definition inputContent :: "string \<Rightarrow> app \<Rightarrow> app" where
  "inputContent c st = updateAttachmentContent c (st\<lparr>attachmentContent := c\<rparr>)"

definition deleteAttachment :: "string \<Rightarrow> app \<Rightarrow> app" where
  "deleteAttachment i st =
     (let st' = st\<lparr>attachments := filter (\<lambda>a. att_id a \<noteq> i) (attachments st)\<rparr> in
      if selectedAttachmentId st' = Some i
      then st'\<lparr>selectedAttachmentId := None, attachmentName := [], attachmentContent := []\<rparr>
      else st')"

definition dragStart :: "string \<Rightarrow> app \<Rightarrow> app" where
  "dragStart i st = st\<lparr>draggedItem := Some i\<rparr>"

definition dragEnd :: "app \<Rightarrow> app" where
  "dragEnd st = st\<lparr>draggedItem := None, draggedOverItem := None\<rparr>"

definition dragOver :: "string \<Rightarrow> app \<Rightarrow> app" where
  "dragOver i st = (if Some i \<noteq> draggedItem st then st\<lparr>draggedOverItem := Some i\<rparr> else st)"

definition dragLeave :: "app \<Rightarrow> app" where
  "dragLeave st = st\<lparr>draggedOverItem := None\<rparr>"

text \<open>
  The handler \<open>drop\<close> (named \<open>dropItem\<close> here, \<open>drop\<close> being a constant of HOL): both indices
  are looked up before the dragged element is removed.
\<close>

definition dropItem :: "app \<Rightarrow> app" where
  "dropItem st =
     dragEnd
       (if truthy (draggedItem st) \<and> truthy (draggedOverItem st) then
          (let draggedIndex = findIndex (\<lambda>item. Some (att_id item) = draggedItem st) (attachments st);
               dropIndex = findIndex (\<lambda>item. Some (att_id item) = draggedOverItem st) (attachments st)
           in case (draggedIndex, dropIndex) of
                (Some i, Some j) \<Rightarrow>
                  st\<lparr>attachments :=
                       splice_insert j (attachments st ! i) (splice_remove i (attachments st))\<rparr>
              | _ \<Rightarrow> st)
        else st)"

text \<open>
  The reorder of the specification: \<open>drop\<close> runs with \<open>draggedItem\<close> holding the dragged
  identifier, set by \<open>dragStart\<close>, and \<open>draggedOverItem\<close> the target's, set by \<open>dragOver\<close>.
\<close>

definition reorder :: "string \<Rightarrow> string \<Rightarrow> app \<Rightarrow> app" where
  "reorder draggedId targetId st =
     dropItem (st\<lparr>draggedItem := Some draggedId, draggedOverItem := Some targetId\<rparr>)"

definition addEmptyAttachment :: "string \<Rightarrow> app \<Rightarrow> app" where
  "addEmptyAttachment new_id st =
     selectAttachment new_id
       (st\<lparr>attachments := attachments st @
          [\<lparr>att_id = new_id, att_name = untitled (length (attachments st) + 1), att_content = []\<rparr>]\<rparr>)"

definition togglePreview :: "app \<Rightarrow> app" where
  "togglePreview st = st\<lparr>showPreview := \<not> showPreview st\<rparr>"

text \<open>Typing into the prompt, bound to \<open>promptText\<close> by \<open>v-model\<close>.\<close>

definition inputPrompt :: "string \<Rightarrow> app \<Rightarrow> app" where
  "inputPrompt p st = st\<lparr>promptText := p\<rparr>"

text \<open>The actions of the interface on the document, other than opening a file.\<close>

datatype action =
    InputPrompt string
  | AddEmptyAttachment string
  | AddFromClipboard string "string option"
  | HandleDrop string jsfile
  | SelectAttachment string
  | StartEditingName string string
  | InputEditingName string
  | SaveAttachmentName
  | RenameAttachment string string
  | InputContent string
  | DeleteAttachment string
  | DragStart string
  | DragOver string
  | DragLeave
  | DragEnd
  | DropItem
  | TogglePreview

fun perform :: "action \<Rightarrow> app \<Rightarrow> app" where
  "perform (InputPrompt p) = inputPrompt p"
| "perform (AddEmptyAttachment i) = addEmptyAttachment i"
| "perform (AddFromClipboard i r) = addFromClipboard i r"
| "perform (HandleDrop i f) = handleDrop i f"
| "perform (SelectAttachment i) = selectAttachment i"
| "perform (StartEditingName i n) = startEditingName i n"
| "perform (InputEditingName n) = inputEditingName n"
| "perform SaveAttachmentName = saveAttachmentName"
| "perform (RenameAttachment i n) = renameAttachment i n"
| "perform (InputContent c) = inputContent c"
| "perform (DeleteAttachment i) = deleteAttachment i"
| "perform (DragStart i) = dragStart i"
| "perform (DragOver i) = dragOver i"
| "perform DragLeave = dragLeave"
| "perform DragEnd = dragEnd"
| "perform DropItem = dropItem"
| "perform TogglePreview = togglePreview"

text \<open>A sequence of actions, performed from left to right.\<close>

definition run :: "action list \<Rightarrow> app \<Rightarrow> app" where
  "run acts st = foldl (\<lambda>s a. perform a s) st acts"

text \<open>
  The selection names no attachment, or one that is in the sequence.
\<close>

definition selection_ok :: "app \<Rightarrow> bool" where
  "selection_ok st =
     (case selectedAttachmentId st of None \<Rightarrow> True | Some s \<Rightarrow> s \<in> set (map att_id (attachments st)))"

section \<open>The debounced output and the event loop\<close>

text \<open>
  \<open>setTimeout\<close> hands out a fresh positive identifier and queues the callback for the time
  \<open>now + delay\<close>; \<open>clearTimeout\<close> removes the timer with the given identifier.
\<close>

definition setTimeout :: "callback \<Rightarrow> nat \<Rightarrow> app \<Rightarrow> nat \<times> app" where
  "setTimeout cb delay st =
     (Suc (timer_count st),
      st\<lparr>pending := pending st @ [(Suc (timer_count st), now st + delay, cb)],
         timer_count := Suc (timer_count st)\<rparr>)"

definition clearTimeout :: "nat \<Rightarrow> app \<Rightarrow> app" where
  "clearTimeout i st = st\<lparr>pending := filter (\<lambda>t. fst t \<noteq> i) (pending st)\<rparr>"

text \<open>
  A call of \<open>updateDebouncedOutput\<close>, the function returned by \<open>debounce(fn, 500)\<close>:
  \<open>if (timer) clearTimeout(timer); timer = setTimeout(fn, delay)\<close>. The number 0 is falsy.
\<close>

definition updateDebouncedOutput :: "app \<Rightarrow> app" where
  "updateDebouncedOutput st =
     (let st1 = (case timer st of
                   None \<Rightarrow> st
                 | Some i \<Rightarrow> if i \<noteq> 0 then clearTimeout i st else st);
          r = setTimeout Recompute 500 st1
      in (snd r)\<lparr>timer := Some (fst r)\<rparr>)"

text \<open>The function that is debounced: it compiles the document as it is when it runs.\<close>

definition recompute :: "app \<Rightarrow> app" where
  "recompute st =
     st\<lparr>debouncedOutputMarkdown := compile (promptText st) (attachments st),
        isOutputStable := True,
        recomputed := recomputed st @ [(now st, compile (promptText st) (attachments st))]\<rparr>"

text \<open>The callback of \<open>watch([promptText, attachments], ..., { deep: true })\<close>.\<close>

definition watcher :: "app \<Rightarrow> app" where
  "watcher st = updateDebouncedOutput (st\<lparr>isOutputStable := False\<rparr>)"

definition run_callback :: "callback \<Rightarrow> app \<Rightarrow> app" where
  "run_callback cb st = (case cb of Recompute \<Rightarrow> recompute st | HideCopyTip \<Rightarrow> st\<lparr>showCopyTip := False\<rparr>)"

text \<open>A timer fires at its deadline: it leaves the queue and its callback runs.\<close>

definition fire :: "nat \<times> nat \<times> callback \<Rightarrow> app \<Rightarrow> app" where
  "fire t st =
     run_callback (snd (snd t))
       (st\<lparr>now := max (now st) (fst (snd t)), pending := filter (\<lambda>u. fst u \<noteq> fst t) (pending st)\<rparr>)"

text \<open>
  The clock reaches the time \<open>T\<close>: the timers due by then fire in the order of their
  deadlines (first set first, among equal deadlines). No callback of this program sets or
  clears a timer, so the timers due are those queued at the start.
\<close>

definition advance :: "nat \<Rightarrow> app \<Rightarrow> app" where
  "advance T st =
     (let due = sort_key (\<lambda>t. fst (snd t)) (filter (\<lambda>t. fst (snd t) \<le> T) (pending st));
          st' = foldl (\<lambda>s t. fire t s) st due
      in st'\<lparr>now := max (now st') T\<rparr>)"

text \<open>
  \<open>copyToClipboard\<close>: the argument tells whether \<open>clipboard.writeText\<close> is fulfilled. The
  tip is hidden by a timer, after 2000 on success and 3000 on failure.
\<close>

definition copyToClipboard :: "bool \<Rightarrow> app \<Rightarrow> app" where
  "copyToClipboard fulfilled st =
     (if \<not> isOutputStable st then st
      else if fulfilled then
        snd (setTimeout HideCopyTip 2000
          (st\<lparr>clipboard := debouncedOutputMarkdown st, copyTipMessage := CopiedTip, showCopyTip := True\<rparr>))
      else
        snd (setTimeout HideCopyTip 3000 (st\<lparr>copyTipMessage := CopyFailedTip, showCopyTip := True\<rparr>)))"

text \<open>
  What happens to the component, one event at a time: an action that changes the prompt or
  the attachments, so that the watcher runs after it (\<open>Edit\<close>); an action that the watcher
  does not see (\<open>Quiet\<close>); a click on Copy; the clock reaching a time. The watcher is
  flushed before any other event is handled, so it runs with the edit that triggers it.
\<close>

datatype event = Edit action | Quiet action | Copy bool | Clock nat

fun step :: "event \<Rightarrow> app \<Rightarrow> app" where
  "step (Edit a) st = watcher (perform a st)"
| "step (Quiet a) st = perform a st"
| "step (Copy fulfilled) st = copyToClipboard fulfilled st"
| "step (Clock T) st = advance T st"

definition run_events :: "event list \<Rightarrow> app \<Rightarrow> app" where
  "run_events es st = foldl (\<lambda>s e. step e s) st es"

text \<open>A recompute is pending: a timer of the debounced function is queued.\<close>

definition recompute_pending :: "app \<Rightarrow> bool" where
  "recompute_pending st = (Recompute \<in> set (map (\<lambda>t. snd (snd t)) (pending st)))"

text \<open>A timer of the debounced function.\<close>

definition is_rec :: "nat \<times> nat \<times> callback \<Rightarrow> bool" where
  "is_rec u = (snd (snd u) = Recompute)"

text \<open>The output of the latest run of the debounced function; empty before the first run.\<close>

definition last_output :: "(nat \<times> string) list \<Rightarrow> string" where
  "last_output log = (if log = [] then [] else snd (last log))"

text \<open>
  What holds of the timers in every state reached from the initial one: identifiers are
  positive, distinct and at most the number handed out; no deadline lies in the past; a
  pending timer of the debounced function is the one \<open>timer\<close> names; the output is unstable
  exactly while such a timer is pending; the debounced output is that of the latest run.
\<close>

definition timers_ok :: "app \<Rightarrow> bool" where
  "timers_ok st =
     (distinct (map fst (pending st))
      \<and> list_all (\<lambda>u. 0 < fst u \<and> fst u \<le> timer_count st
                     \<and> now st \<le> fst (snd u)
                     \<and> (snd (snd u) = Recompute \<longrightarrow> timer st = Some (fst u))) (pending st)
      \<and> isOutputStable st = (\<not> recompute_pending st)
      \<and> debouncedOutputMarkdown st = last_output (recomputed st))"

section \<open>Saving to XML\<close>

text \<open>
  The text that \<open>saveToXML\<close> builds in \<open>xmlContent\<close> and offers for download as
  \<open>prompt_builder.xml\<close>.
\<close>

definition saveToXML :: "app \<Rightarrow> string" where
  "saveToXML st =
     (let xmlContent = ''<?xml version=\"1.0\" encoding=\"UTF-8\"?>\<newline>'';
          xmlContent = xmlContent @ ''<promptBuilder>\<newline>'';
          xmlContent = xmlContent @ ''  <prompt><![CDATA['' @ promptText st @ '']]></prompt>\<newline>'';
          xmlContent =
            (if length (attachments st) > 0 then
               foldl (\<lambda>xmlContent a.
                   xmlContent @ ''    <attachment>\<newline>'' @
                   ''      <name><![CDATA['' @ att_name a @ '']]></name>\<newline>'' @
                   ''      <content><![CDATA['' @ att_content a @ '']]></content>\<newline>'' @
                   ''    </attachment>\<newline>'')
                 (xmlContent @ ''  <attachments>\<newline>'') (attachments st)
               @ ''  </attachments>\<newline>''
             else xmlContent)
      in xmlContent @ ''</promptBuilder>'')"

section \<open>The browser's XML parser and DOM\<close>

text \<open>
  \<open>DOMParser.parseFromString(text, 'text/xml')\<close> belongs to the browser. It never throws:
  for every text it returns a document, so it is a function from texts to documents, and
  \<open>openFromXML\<close> takes it as an argument. A document is modelled by its root element; an
  element by its local name and its children; attributes, comments and processing
  instructions, which \<open>querySelector\<close> with a type selector and \<open>textContent\<close> do not
  read, are left out.

  What XML prescribes is modelled for the part of XML 1.0 that \<open>saveToXML\<close> writes: an
  optional XML declaration, elements without attributes, character data without
  references, and CDATA sections. \<open>parseXML\<close> has three answers: the document, for a
  well-formed text of that part; \<open>NotWellFormed\<close>, for a text that is not well-formed;
  \<open>Unmodelled\<close>, for a text that uses anything else (attributes, references, comments,
  processing instructions, a document type, qualified names). A parser of a browser
  agrees with \<open>parseXML\<close> wherever it answers with a document (\<open>xml_parser\<close>). What a
  browser returns for a text that is not well-formed differs from browser to browser, and
  nothing is assumed about it.
\<close>

datatype node = Element string "node list" | Text string

datatype 'a parsed = Parsed 'a | NotWellFormed | Unmodelled

datatype token = TOpen string | TClose string | TText string | TCData string

text \<open>The characters XML allows, among the code units 0..255.\<close>

definition is_xml_char :: "char \<Rightarrow> bool" where
  "is_xml_char c = (c = CHR 0x09 \<or> c = CHR 0x0A \<or> c = CHR 0x0D \<or> 32 \<le> (of_char c :: nat))"

definition is_xml_space :: "char \<Rightarrow> bool" where
  "is_xml_space c = (c = CHR 0x20 \<or> c = CHR 0x09 \<or> c = CHR 0x0A \<or> c = CHR 0x0D)"

definition in_range :: "nat \<Rightarrow> nat \<Rightarrow> char \<Rightarrow> bool" where
  "in_range lo hi c = (lo \<le> of_char c \<and> (of_char c :: nat) \<le> hi)"

text \<open>
  The characters of a name. The colon is left out: a name with a colon is a qualified name,
  and the parser of the browser checks its prefix against the namespaces in scope.
\<close>

definition is_name_start :: "char \<Rightarrow> bool" where
  "is_name_start c =
     (c = CHR ''_'' \<or> in_range 65 90 c \<or> in_range 97 122 c \<or>
      in_range 192 214 c \<or> in_range 216 246 c \<or> in_range 248 255 c)"

definition is_name_char :: "char \<Rightarrow> bool" where
  "is_name_char c =
     (is_name_start c \<or> c = CHR ''-'' \<or> c = CHR ''.'' \<or> in_range 48 57 c \<or> c = CHR 0xB7)"

definition is_name :: "string \<Rightarrow> bool" where
  "is_name s = (case s of [] \<Rightarrow> False | c # cs \<Rightarrow> is_name_start c \<and> list_all is_name_char cs)"

text \<open>End-of-line handling (XML 1.0, 2.11): CR LF and a lone CR are read as LF.\<close>

fun normalize_eol :: "string \<Rightarrow> string" where
  "normalize_eol [] = []"
| "normalize_eol [c] = (if c = CHR 0x0D then [CHR 0x0A] else [c])"
| "normalize_eol (c # d # cs) =
     (if c = CHR 0x0D then
        (if d = CHR 0x0A then CHR 0x0A # normalize_eol cs else CHR 0x0A # normalize_eol (d # cs))
      else c # normalize_eol (d # cs))"

text \<open>The text before the first occurrence of a delimiter, and the text after it.\<close>

fun split_on :: "string \<Rightarrow> string \<Rightarrow> (string \<times> string) option" where
  "split_on d [] = (if d = [] then Some ([], []) else None)"
| "split_on d (c # cs) =
     (if prefix d (c # cs) then Some ([], drop (length d) (c # cs))
      else map_option (\<lambda>r. (c # fst r, snd r)) (split_on d cs))"

fun contains :: "string \<Rightarrow> string \<Rightarrow> bool" where
  "contains d [] = (d = [])"
| "contains d (c # cs) = (prefix d (c # cs) \<or> contains d cs)"

text \<open>The inside of a tag of the modelled part: a name, then optional white space.\<close>

definition tag_name :: "string \<Rightarrow> string option" where
  "tag_name body =
     (let n = takeWhile (\<lambda>c. \<not> is_xml_space c) body;
          rest = dropWhile (\<lambda>c. \<not> is_xml_space c) body
      in if is_name n \<and> list_all is_xml_space rest then Some n else None)"

text \<open>The token a non-empty text starts with, and the number of characters it takes.\<close>

definition scan :: "string \<Rightarrow> (token \<times> nat) parsed" where
  "scan s =
     (if prefix ''<![CDATA['' s then
        (case split_on '']]>'' (drop 9 s) of
           None \<Rightarrow> NotWellFormed
         | Some r \<Rightarrow> Parsed (TCData (fst r), 9 + length (fst r) + 3))
      else if prefix ''</'' s then
        (case split_on ''>'' (drop 2 s) of
           None \<Rightarrow> NotWellFormed
         | Some r \<Rightarrow>
             (case tag_name (fst r) of
                None \<Rightarrow> NotWellFormed
              | Some n \<Rightarrow> Parsed (TClose n, 2 + length (fst r) + 1)))
      else if prefix ''<'' s then
        (case split_on ''>'' (drop 1 s) of
           None \<Rightarrow> NotWellFormed
         | Some r \<Rightarrow>
             (case tag_name (fst r) of
                None \<Rightarrow> Unmodelled
              | Some n \<Rightarrow> Parsed (TOpen n, 1 + length (fst r) + 1)))
      else
        (let t = takeWhile (\<lambda>c. c \<noteq> CHR ''<'') s in
         if CHR ''&'' \<in> set t then Unmodelled
         else if contains '']]>'' t then NotWellFormed
         else Parsed (TText t, length t)))"

text \<open>
  The tokens of a text. The first argument counts the characters still to skip, those of
  the token scanned last.
\<close>

fun lex :: "nat \<Rightarrow> string \<Rightarrow> token list parsed" where
  "lex k [] = Parsed []"
| "lex (Suc k) (c # cs) = lex k cs"
| "lex 0 (c # cs) =
     (case scan (c # cs) of
        Parsed r \<Rightarrow> map_parsed ((#) (fst r)) (lex (snd r - 1) cs)
      | NotWellFormed \<Rightarrow> NotWellFormed
      | Unmodelled \<Rightarrow> Unmodelled)"

text \<open>
  The tree of a token list: the stack holds the open elements, innermost first, each with
  its children so far in reverse; \<open>roots\<close> holds the elements closed at the top level. A
  document has exactly one root element, and only white space around it.
\<close>

fun build :: "(string \<times> node list) list \<Rightarrow> node list \<Rightarrow> token list \<Rightarrow> node parsed" where
  "build [] roots [] = (case roots of [root] \<Rightarrow> Parsed root | _ \<Rightarrow> NotWellFormed)"
| "build (f # stack) roots [] = NotWellFormed"
| "build stack roots (TOpen n # ts) =
     (if stack = [] \<and> roots \<noteq> [] then NotWellFormed else build ((n, []) # stack) roots ts)"
| "build [] roots (TClose n # ts) = NotWellFormed"
| "build ((m, cs) # stack) roots (TClose n # ts) =
     (if m \<noteq> n then NotWellFormed
      else (case stack of
              [] \<Rightarrow> build [] (Element m (rev cs) # roots) ts
            | (m', cs') # stack' \<Rightarrow> build ((m', Element m (rev cs) # cs') # stack') roots ts))"
| "build [] roots (TText s # ts) = (if list_all is_xml_space s then build [] roots ts else NotWellFormed)"
| "build ((m, cs) # stack) roots (TText s # ts) = build ((m, Text s # cs) # stack) roots ts"
| "build [] roots (TCData s # ts) = NotWellFormed"
| "build ((m, cs) # stack) roots (TCData s # ts) = build ((m, Text s # cs) # stack) roots ts"

definition xml_declaration :: string where
  "xml_declaration = ''<?xml version=\"1.0\" encoding=\"UTF-8\"?>''"

definition parseXML :: "string \<Rightarrow> node parsed" where
  "parseXML text =
     (if \<not> list_all is_xml_char text then NotWellFormed
      else
        (let s = normalize_eol text;
             body = (if prefix xml_declaration s then drop (length xml_declaration) s else s)
         in case lex 0 body of
              Parsed ts \<Rightarrow> build [] [] ts
            | NotWellFormed \<Rightarrow> NotWellFormed
            | Unmodelled \<Rightarrow> Unmodelled))"

text \<open>The parsers that agree with XML on the modelled part.\<close>

definition xml_parser :: "(string \<Rightarrow> node) \<Rightarrow> bool" where
  "xml_parser parseFromString =
     (\<forall>text root. parseXML text = Parsed root \<longrightarrow> parseFromString text = root)"

text \<open>
  One such parser, for evaluating the program on given texts. Outside the texts with a
  document it answers with the bare \<open>parsererror\<close> root that the HTML Standard describes;
  Chromium answers with the tree built before the error and a \<open>parsererror\<close> element
  inside it. No theorem depends on that answer.
\<close>

definition reference_parser :: "string \<Rightarrow> node" where
  "reference_parser text =
     (case parseXML text of
        Parsed root \<Rightarrow> root
      | NotWellFormed \<Rightarrow> Element ''parsererror'' []
      | Unmodelled \<Rightarrow> Element ''parsererror'' [])"

fun textContent :: "node \<Rightarrow> string" where
  "textContent (Text s) = s"
| "textContent (Element n cs) = concat (map textContent cs)"

text \<open>The elements of a subtree, the root of the subtree first, in document order.\<close>

fun elements :: "node \<Rightarrow> node list" where
  "elements (Text s) = []"
| "elements (Element n cs) = Element n cs # concat (map elements cs)"

fun tagName :: "node \<Rightarrow> string" where
  "tagName (Element n cs) = n"
| "tagName (Text s) = []"

fun childNodes :: "node \<Rightarrow> node list" where
  "childNodes (Element n cs) = cs"
| "childNodes (Text s) = []"

text \<open>
  \<open>querySelectorAll\<close> and \<open>querySelector\<close> with a type selector. On the document they
  range over all its elements, the root element included; on an element over its
  descendants.
\<close>

definition doc_querySelectorAll :: "string \<Rightarrow> node \<Rightarrow> node list" where
  "doc_querySelectorAll tag root = filter (\<lambda>e. tagName e = tag) (elements root)"

definition doc_querySelector :: "string \<Rightarrow> node \<Rightarrow> node option" where
  "doc_querySelector tag root = (case doc_querySelectorAll tag root of [] \<Rightarrow> None | e # _ \<Rightarrow> Some e)"

definition querySelectorAll :: "string \<Rightarrow> node \<Rightarrow> node list" where
  "querySelectorAll tag e = filter (\<lambda>e. tagName e = tag) (concat (map elements (childNodes e)))"

definition querySelector :: "string \<Rightarrow> node \<Rightarrow> node option" where
  "querySelector tag e = (case querySelectorAll tag e of [] \<Rightarrow> None | x # _ \<Rightarrow> Some x)"

section \<open>Opening from XML\<close>

text \<open>
  The callback of \<open>attachmentElements.forEach\<close>: an attachment is pushed when the element
  has both a \<open>name\<close> and a \<open>content\<close> element. \<open>gen k\<close> is the identifier generated for the
  attachment pushed at index \<open>k\<close>.
\<close>

definition loadAttachment :: "(nat \<Rightarrow> string) \<Rightarrow> attachment list \<Rightarrow> node \<Rightarrow> attachment list" where
  "loadAttachment gen atts attachmentElement =
     (case (querySelector ''name'' attachmentElement, querySelector ''content'' attachmentElement) of
        (Some nameElement, Some contentElement) \<Rightarrow>
          atts @ [\<lparr>att_id = gen (length atts),
                   att_name = js_or (textContent nameElement) ''Untitled'',
                   att_content = js_or (textContent contentElement) []\<rparr>]
      | _ \<Rightarrow> atts)"

text \<open>The body of \<open>reader.onload\<close> from the parsed document on.\<close>

definition loadDocument :: "(nat \<Rightarrow> string) \<Rightarrow> node \<Rightarrow> app \<Rightarrow> app" where
  "loadDocument gen xmlDoc st =
     (let st1 = (case doc_querySelector ''prompt'' xmlDoc of
                   None \<Rightarrow> st
                 | Some promptElement \<Rightarrow> st\<lparr>promptText := js_or (textContent promptElement) []\<rparr>);
          attachmentElements = doc_querySelectorAll ''attachment'' xmlDoc
      in if length attachmentElements > 0
         then st1\<lparr>attachments := foldl (loadAttachment gen) [] attachmentElements\<rparr>
         else st1)"

text \<open>
  \<open>openFromXML\<close> for the file chosen, with the \<open>onload\<close> of its reader run at once; the
  first argument is the parser of the browser. Nothing in the \<open>try\<close> block throws, so its
  \<open>catch\<close>, which would alert \<open>XmlParseFailed\<close>, is never entered.
\<close>

definition openFromXML :: "(string \<Rightarrow> node) \<Rightarrow> (nat \<Rightarrow> string) \<Rightarrow> jsfile \<Rightarrow> app \<Rightarrow> app" where
  "openFromXML parseFromString gen f st =
     (if file_size f > maxSize then st\<lparr>alerts := alerts st @ [FileTooLarge (file_name f)]\<rparr>
      else loadDocument gen (parseFromString (file_text f)) st)"

section \<open>The saved text, piece by piece\<close>

text \<open>
  A text that a CDATA section returns as it is: every character is allowed in XML, none is
  a carriage return, and the text does not contain the end mark of a CDATA section.
\<close>

definition cdata_safe :: "string \<Rightarrow> bool" where
  "cdata_safe s = (list_all is_xml_char s \<and> CHR 0x0D \<notin> set s \<and> \<not> contains '']]>'' s)"

text \<open>
  The pieces \<open>saveToXML\<close> puts together, for the proofs about the saved text: a start tag,
  an end tag, a CDATA section, and a line break followed by an indentation.
\<close>

definition otag :: "string \<Rightarrow> string" where
  "otag n = CHR ''<'' # n @ ''>''"

definition ctag :: "string \<Rightarrow> string" where
  "ctag n = ''</'' @ n @ ''>''"

definition cdata :: "string \<Rightarrow> string" where
  "cdata b = ''<![CDATA['' @ b @ '']]>''"

definition indent :: "nat \<Rightarrow> string" where
  "indent k = CHR 0x0A # replicate k (CHR '' '')"

text \<open>A tag name of the modelled part of XML, as the scanner needs it.\<close>

definition plain_name :: "string \<Rightarrow> bool" where
  "plain_name n =
     (tag_name n = Some n \<and> CHR ''>'' \<notin> set n
      \<and> (case n of [] \<Rightarrow> False | c # _ \<Rightarrow> c \<noteq> CHR ''!'' \<and> c \<noteq> CHR ''/''))"

text \<open>
  The text of one attachment with the white space before it, its tokens, and its element;
  then the whole saved text after the XML declaration, its tokens and its tree.
\<close>

definition att_text :: "attachment \<Rightarrow> string" where
  "att_text a =
     indent 4 @ otag ''attachment'' @
     indent 6 @ otag ''name'' @ cdata (att_name a) @ ctag ''name'' @
     indent 6 @ otag ''content'' @ cdata (att_content a) @ ctag ''content'' @
     indent 4 @ ctag ''attachment''"

definition att_tokens :: "attachment \<Rightarrow> token list" where
  "att_tokens a =
     [TText (indent 4), TOpen ''attachment'',
      TText (indent 6), TOpen ''name'', TCData (att_name a), TClose ''name'',
      TText (indent 6), TOpen ''content'', TCData (att_content a), TClose ''content'',
      TText (indent 4), TClose ''attachment'']"

definition att_elem :: "attachment \<Rightarrow> node" where
  "att_elem a =
     Element ''attachment''
       [Text (indent 6), Element ''name'' [Text (att_name a)],
        Text (indent 6), Element ''content'' [Text (att_content a)],
        Text (indent 4)]"

definition saved_body :: "string \<Rightarrow> attachment list \<Rightarrow> string" where
  "saved_body p atts =
     indent 0 @ otag ''promptBuilder'' @
     indent 2 @ otag ''prompt'' @ cdata p @ ctag ''prompt'' @
     (if atts = [] then []
      else indent 2 @ otag ''attachments'' @ concat (map att_text atts) @
           indent 2 @ ctag ''attachments'') @
     indent 0 @ ctag ''promptBuilder''"

definition doc_tokens :: "string \<Rightarrow> attachment list \<Rightarrow> token list" where
  "doc_tokens p atts =
     [TText (indent 0), TOpen ''promptBuilder'',
      TText (indent 2), TOpen ''prompt'', TCData p, TClose ''prompt''] @
     (if atts = [] then []
      else [TText (indent 2), TOpen ''attachments''] @ concat (map att_tokens atts) @
           [TText (indent 2), TClose ''attachments'']) @
     [TText (indent 0), TClose ''promptBuilder'']"

definition doc_tree :: "string \<Rightarrow> attachment list \<Rightarrow> node" where
  "doc_tree p atts =
     Element ''promptBuilder''
       ([Text (indent 2), Element ''prompt'' [Text p]] @
        (if atts = [] then []
         else [Text (indent 2),
               Element ''attachments''
                 (concat (map (\<lambda>a. [Text (indent 4), att_elem a]) atts) @ [Text (indent 2)])]) @
        [Text (indent 0)])"

text \<open>A text of characters allowed in XML, with no carriage return.\<close>

definition clean :: "string \<Rightarrow> bool" where
  "clean s = list_all (\<lambda>c. is_xml_char c \<and> c \<noteq> CHR 0x0D) s"

section \<open>The compiled output\<close>

lemma foldl_append_concat: "foldl (\<lambda>acc a. acc @ f a) s xs = s @ concat (map f xs)"
  by (induction xs arbitrary: s) simp_all

text \<open>
  Claim C1. For every prompt text and every list of attachments, the compiled output is
  the prompt text, two newlines, and then for each attachment in order the heading
  \<open>### name\<close>, a line of three backticks, the content, a line of three backticks and an
  empty line. For the prompt \<open>Summarize:\<close> and the one attachment \<open>doc1\<close> with content \<open>hello\<close>
  it is the text given in the specification.
\<close>

theorem compile_format:
  "compile p atts =
     p @ ''\<newline>\<newline>'' @
     concat (map (\<lambda>a. ''### '' @ att_name a @ ''\<newline>```\<newline>'' @ att_content a @ ''\<newline>```\<newline>\<newline>'') atts)
   \<and> compile ''Summarize:'' [\<lparr>att_id = i, att_name = ''doc1'', att_content = ''hello''\<rparr>] =
       ''Summarize:\<newline>\<newline>### doc1\<newline>```\<newline>hello\<newline>```\<newline>\<newline>''"
proof
  show "compile p atts =
     p @ ''\<newline>\<newline>'' @
     concat (map (\<lambda>a. ''### '' @ att_name a @ ''\<newline>```\<newline>'' @ att_content a @ ''\<newline>```\<newline>\<newline>'') atts)"
    by (cases atts) (simp_all add: compile_def foldl_append_concat)
  show "compile ''Summarize:'' [\<lparr>att_id = i, att_name = ''doc1'', att_content = ''hello''\<rparr>] =
       ''Summarize:\<newline>\<newline>### doc1\<newline>```\<newline>hello\<newline>```\<newline>\<newline>''"
    by (simp add: compile_def)
qed

section \<open>The selection\<close>

lemma findIndex_Some: "findIndex P xs = Some k \<Longrightarrow> k < length xs \<and> P (xs ! k)"
proof (induction xs arbitrary: k)
  case Nil
  then show ?case by simp
next
  case (Cons x xs)
  then show ?case by (auto split: if_splits)
qed

lemma findIndex_None: "findIndex P xs = None \<longleftrightarrow> (\<forall>x \<in> set xs. \<not> P x)"
  by (induction xs) auto

lemma find_att_id: "find (\<lambda>a. att_id a = i) xs = Some a \<Longrightarrow> i \<in> set (map att_id xs)"
  by (induction xs) (auto split: if_splits)

lemma map_att_id_rename: "map att_id (xs[k := (xs ! k)\<lparr>att_name := n\<rparr>]) = map att_id xs"
  by (induction xs arbitrary: k) (auto split: nat.splits)

lemma map_att_id_content: "map att_id (xs[k := (xs ! k)\<lparr>att_content := c\<rparr>]) = map att_id xs"
  by (induction xs arbitrary: k) (auto split: nat.splits)

lemma ids_rename: "att_id ` set (xs[k := (xs ! k)\<lparr>att_name := n\<rparr>]) = att_id ` set xs"
  using map_att_id_rename [of xs k n] by (metis list.set_map)

lemma ids_content: "att_id ` set (xs[k := (xs ! k)\<lparr>att_content := c\<rparr>]) = att_id ` set xs"
  using map_att_id_content [of xs k c] by (metis list.set_map)

lemma mset_splice:
  assumes "i < length xs"
  shows "mset (splice_insert j (xs ! i) (splice_remove i xs)) = mset xs"
proof -
  have "mset (splice_insert j (xs ! i) (splice_remove i xs)) = add_mset (xs ! i) (mset (splice_remove i xs))"
    unfolding splice_insert_def
    by (metis append_take_drop_id mset.simps(2) union_code union_mset_add_mset_right)
  also have "\<dots> = mset (take i xs @ xs ! i # drop (Suc i) xs)"
    by (simp add: splice_remove_def)
  also have "\<dots> = mset xs"
    using assms by (simp add: id_take_nth_drop [symmetric])
  finally show ?thesis .
qed

lemma set_splice:
  "i < length xs \<Longrightarrow> set (splice_insert j (xs ! i) (splice_remove i xs)) = set xs"
  using mset_splice [of i xs j] by (metis set_mset_mset)

lemma selection_ok_perform:
  assumes "selection_ok st"
  shows "selection_ok (perform a st)"
proof (cases a)
  case (AddEmptyAttachment i)
  with assms show ?thesis
    by (auto simp: selection_ok_def addEmptyAttachment_def selectAttachment_def find_None_iff
        split: option.splits if_splits)
next
  case (SelectAttachment i)
  with assms show ?thesis
    by (auto simp: selection_ok_def selectAttachment_def dest: find_att_id split: option.splits)
next
  case (StartEditingName i n)
  with assms show ?thesis
    by (auto simp: selection_ok_def selectAttachment_def startEditingName_def
        dest: find_att_id split: option.splits)
next
  case SaveAttachmentName
  with assms show ?thesis
    by (auto simp: selection_ok_def saveAttachmentName_def Let_def ids_rename
        split: option.splits)
next
  case (RenameAttachment i n)
  with assms show ?thesis
    by (auto simp: selection_ok_def renameAttachment_def saveAttachmentName_def Let_def
        ids_rename inputEditingName_def startEditingName_def selectAttachment_def
        dest: find_att_id split: option.splits)
next
  case (InputContent c)
  with assms show ?thesis
    by (auto simp: selection_ok_def inputContent_def updateAttachmentContent_def
        ids_content split: option.splits)
next
  case (DeleteAttachment i)
  with assms show ?thesis
    by (auto simp: selection_ok_def deleteAttachment_def Let_def split: option.splits)
next
  case DropItem
  with assms show ?thesis
    by (auto simp: selection_ok_def dropItem_def dragEnd_def Let_def set_splice
        dest!: findIndex_Some split: option.splits)
qed (use assms in \<open>auto simp: selection_ok_def inputPrompt_def addFromClipboard_def handleDrop_def
      inputEditingName_def dragStart_def dragOver_def dragLeave_def dragEnd_def togglePreview_def
      split: option.splits\<close>)

lemma selection_ok_run: "selection_ok st \<Longrightarrow> selection_ok (run acts st)"
  unfolding run_def by (induction acts arbitrary: st) (simp_all add: selection_ok_perform)

text \<open>
  Claim C3. After any sequence of actions performed on the empty document (adding,
  renaming, selecting and deleting attachments, and every other action of the interface
  but opening a file), \<open>selectedAttachmentId\<close> is \<open>null\<close> or the identifier of an attachment
  in the sequence.
\<close>

theorem selection_invariant: "selection_ok (run acts initial)"
  by (rule selection_ok_run) (simp add: selection_ok_def initial_def)

section \<open>Renaming\<close>

lemma map_att_content_rename: "map att_content (xs[k := (xs ! k)\<lparr>att_name := n\<rparr>]) = map att_content xs"
  by (induction xs arbitrary: k) (auto split: nat.splits)

lemma attachments_selectAttachment: "attachments (selectAttachment i st) = attachments st"
  by (simp add: selectAttachment_def split: option.splits)

lemma attachments_renameAttachment:
  "attachments (renameAttachment i newName st) =
     (if i \<noteq> [] \<and> trim newName \<noteq> [] then
        (case findIndex (\<lambda>a. att_id a = i) (attachments st) of
           None \<Rightarrow> attachments st
         | Some k \<Rightarrow> (attachments st)[k := (attachments st ! k)\<lparr>att_name := trim newName\<rparr>])
      else attachments st)"
  by (simp add: renameAttachment_def saveAttachmentName_def inputEditingName_def
      startEditingName_def attachments_selectAttachment truthy_def Let_def split: option.splits)

text \<open>
  Claim C9. Let the attachment at index \<open>k\<close> be the one a rename of the identifier \<open>i\<close>
  finds (identifiers are generated non-empty). A new name that is empty once trimmed
  leaves the attachments as they are; any other new name replaces the name of that
  attachment by the trimmed new name; in both cases the identifiers and the contents of
  all attachments are unchanged.
\<close>

theorem rename_attachment:
  assumes "findIndex (\<lambda>a. att_id a = i) (attachments st) = Some k" and "i \<noteq> []"
  shows "(trim newName = [] \<longrightarrow>
            attachments (renameAttachment i newName st) = attachments st)
       \<and> (trim newName \<noteq> [] \<longrightarrow>
            attachments (renameAttachment i newName st) =
              (attachments st)[k := (attachments st ! k)\<lparr>att_name := trim newName\<rparr>]
            \<and> att_name (attachments (renameAttachment i newName st) ! k) = trim newName)
       \<and> map att_id (attachments (renameAttachment i newName st)) = map att_id (attachments st)
       \<and> map att_content (attachments (renameAttachment i newName st)) =
            map att_content (attachments st)"
  using assms findIndex_Some [OF assms(1)]
  by (simp add: attachments_renameAttachment map_att_id_rename map_att_content_rename
      del: map_update)

theorem rename_attachment_witness:
  "attachments (renameAttachment ''7'' ''   ''
      (initial\<lparr>attachments := [\<lparr>att_id = ''7'', att_name = ''doc'', att_content = ''x''\<rparr>]\<rparr>)) =
     [\<lparr>att_id = ''7'', att_name = ''doc'', att_content = ''x''\<rparr>]
   \<and> attachments (renameAttachment ''7'' '' notes ''
      (initial\<lparr>attachments := [\<lparr>att_id = ''7'', att_name = ''doc'', att_content = ''x''\<rparr>]\<rparr>)) =
     [\<lparr>att_id = ''7'', att_name = ''notes'', att_content = ''x''\<rparr>]"
  using rename_attachment [of "''7''"
      "initial\<lparr>attachments := [\<lparr>att_id = ''7'', att_name = ''doc'', att_content = ''x''\<rparr>]\<rparr>" 0 "''   ''"]
    rename_attachment [of "''7''"
      "initial\<lparr>attachments := [\<lparr>att_id = ''7'', att_name = ''doc'', att_content = ''x''\<rparr>]\<rparr>" 0 "'' notes ''"]
  by (simp add: initial_def trim_def is_js_space_def)

section \<open>Deleting an identifier that is absent\<close>

text \<open>
  Claim C10, as amended. Deleting an identifier that no attachment of the sequence has
  leaves the attachment sequence and the prompt text as they are. The selection is left
  as it is unless it is that very identifier, a stale selection, which is then cleared.
  So the whole state is unchanged whenever the selection is not the deleted identifier,
  in particular whenever it is \<open>null\<close> or the identifier of an attachment in the sequence.
\<close>

theorem delete_absent_unchanged:
  assumes "i \<notin> set (map att_id (attachments st))"
  shows "attachments (deleteAttachment i st) = attachments st
       \<and> promptText (deleteAttachment i st) = promptText st
       \<and> selectedAttachmentId (deleteAttachment i st) =
           (if selectedAttachmentId st = Some i then None else selectedAttachmentId st)
       \<and> (selectedAttachmentId st \<noteq> Some i \<longrightarrow> deleteAttachment i st = st)
       \<and> (selection_ok st \<longrightarrow> deleteAttachment i st = st)"
proof -
  have same: "filter (\<lambda>a. att_id a \<noteq> i) (attachments st) = attachments st"
    using assms by (auto simp: filter_id_conv)
  show ?thesis
    using assms by (auto simp: deleteAttachment_def Let_def same selection_ok_def)
qed

theorem delete_absent_unchanged_witness:
  "deleteAttachment ''9'' (run [AddEmptyAttachment ''7''] initial) = run [AddEmptyAttachment ''7''] initial
   \<and> selectedAttachmentId
       (deleteAttachment ''9'' (initial\<lparr>selectedAttachmentId := Some ''9''\<rparr>)) = None"
  using delete_absent_unchanged [of "''9''" "run [AddEmptyAttachment ''7''] initial"]
    delete_absent_unchanged [of "''9''" "initial\<lparr>selectedAttachmentId := Some ''9''\<rparr>"]
  by (simp add: run_def initial_def addEmptyAttachment_def selectAttachment_def selection_ok_def)

section \<open>Reordering\<close>

lemma attachments_reorder:
  "attachments (reorder d t st) =
     (if d \<noteq> [] \<and> t \<noteq> [] then
        (case (findIndex (\<lambda>a. att_id a = d) (attachments st),
               findIndex (\<lambda>a. att_id a = t) (attachments st)) of
           (Some i, Some j) \<Rightarrow> splice_insert j (attachments st ! i) (splice_remove i (attachments st))
         | _ \<Rightarrow> attachments st)
      else attachments st)"
  by (simp add: reorder_def dropItem_def dragEnd_def truthy_def Let_def split: option.splits)

lemma splice_same_index:
  assumes "i < length xs"
  shows "splice_insert i (xs ! i) (splice_remove i xs) = xs"
proof -
  have "take i (take i xs @ drop (Suc i) xs) = take i xs"
    using assms by simp
  moreover have "drop i (take i xs @ drop (Suc i) xs) = drop (Suc i) xs"
    using assms by simp
  ultimately show ?thesis
    using assms by (simp add: splice_insert_def splice_remove_def id_take_nth_drop [symmetric])
qed

lemma splice_lands:
  assumes "i < length xs" and "j < length xs"
  shows "length (splice_insert j x (splice_remove i xs)) = length xs"
    and "splice_insert j x (splice_remove i xs) ! j = x"
    and "splice_remove j (splice_insert j x (splice_remove i xs)) = splice_remove i xs"
proof -
  let ?ys = "splice_remove i xs"
  have len: "length ?ys = length xs - 1"
    using assms by (simp add: splice_remove_def)
  then have j: "j \<le> length ?ys"
    using assms by simp
  show "length (splice_insert j x ?ys) = length xs"
    using len j assms by (simp add: splice_insert_def)
  show "splice_insert j x ?ys ! j = x"
    using j by (simp add: splice_insert_def nth_append)
  have "splice_remove j (take j ?ys @ x # drop j ?ys) = take j ?ys @ drop j ?ys"
    using j unfolding splice_remove_def [of j] by simp
  then show "splice_remove j (splice_insert j x ?ys) = ?ys"
    by (simp add: splice_insert_def)
qed

text \<open>
  Claim C6. When both identifiers are present (and non-empty, as generated identifiers
  are), with the dragged attachment found at index \<open>i\<close> and the target at index \<open>j\<close>, the
  reorder removes the dragged attachment and inserts it at index \<open>j\<close>: the result has the
  same length and the same elements, holds the dragged attachment at index \<open>j\<close>, and
  without it is the old sequence without the dragged attachment. When an identifier is
  absent or the two are equal the sequence is unchanged. On \<open>[A, B, C]\<close> with distinct
  identifiers, dragging \<open>C\<close> onto \<open>A\<close> yields \<open>[C, A, B]\<close>.
\<close>

theorem reorder_moves:
  "(\<forall>i j. d \<noteq> [] \<and> t \<noteq> []
        \<and> findIndex (\<lambda>a. att_id a = d) (attachments st) = Some i
        \<and> findIndex (\<lambda>a. att_id a = t) (attachments st) = Some j \<longrightarrow>
      attachments (reorder d t st) =
        splice_insert j (attachments st ! i) (splice_remove i (attachments st))
      \<and> length (attachments (reorder d t st)) = length (attachments st)
      \<and> attachments (reorder d t st) ! j = attachments st ! i
      \<and> splice_remove j (attachments (reorder d t st)) = splice_remove i (attachments st)
      \<and> mset (attachments (reorder d t st)) = mset (attachments st))
   \<and> (d \<notin> set (map att_id (attachments st)) \<or> t \<notin> set (map att_id (attachments st)) \<or> d = t \<longrightarrow>
      attachments (reorder d t st) = attachments st)
   \<and> (att_id a \<noteq> [] \<and> att_id c \<noteq> [] \<and> att_id c \<noteq> att_id a \<and> att_id c \<noteq> att_id b \<longrightarrow>
      attachments (reorder (att_id c) (att_id a) (st\<lparr>attachments := [a, b, c]\<rparr>)) = [c, a, b])"
proof (intro conjI allI impI)
  fix i j
  assume h: "d \<noteq> [] \<and> t \<noteq> []
        \<and> findIndex (\<lambda>a. att_id a = d) (attachments st) = Some i
        \<and> findIndex (\<lambda>a. att_id a = t) (attachments st) = Some j"
  then have i: "i < length (attachments st)" and j: "j < length (attachments st)"
    using findIndex_Some by blast+
  show r: "attachments (reorder d t st) =
        splice_insert j (attachments st ! i) (splice_remove i (attachments st))"
    using h by (simp add: attachments_reorder)
  show "length (attachments (reorder d t st)) = length (attachments st)"
    unfolding r using i j by (rule splice_lands)
  show "attachments (reorder d t st) ! j = attachments st ! i"
    unfolding r using i j by (rule splice_lands)
  show "splice_remove j (attachments (reorder d t st)) = splice_remove i (attachments st)"
    unfolding r using i j by (rule splice_lands)
  show "mset (attachments (reorder d t st)) = mset (attachments st)"
    unfolding r using i by (rule mset_splice)
next
  assume h: "d \<notin> set (map att_id (attachments st)) \<or> t \<notin> set (map att_id (attachments st)) \<or> d = t"
  show "attachments (reorder d t st) = attachments st"
  proof (cases "findIndex (\<lambda>a. att_id a = d) (attachments st)")
    case None
    then show ?thesis by (simp add: attachments_reorder)
  next
    case (Some i)
    note di = this
    show ?thesis
    proof (cases "findIndex (\<lambda>a. att_id a = t) (attachments st)")
      case None
      then show ?thesis by (simp add: attachments_reorder di)
    next
      case (Some j)
      from di have "d \<in> set (map att_id (attachments st))"
        using findIndex_Some by fastforce
      moreover from Some have "t \<in> set (map att_id (attachments st))"
        using findIndex_Some by fastforce
      ultimately have "d = t" using h by blast
      with di Some have "j = i" by simp
      moreover have "i < length (attachments st)"
        using di findIndex_Some by blast
      ultimately show ?thesis
        using di Some by (simp add: attachments_reorder splice_same_index)
    qed
  qed
next
  assume "att_id a \<noteq> [] \<and> att_id c \<noteq> [] \<and> att_id c \<noteq> att_id a \<and> att_id c \<noteq> att_id b"
  then show "attachments (reorder (att_id c) (att_id a) (st\<lparr>attachments := [a, b, c]\<rparr>)) = [c, a, b]"
    by (auto simp: attachments_reorder splice_insert_def splice_remove_def)
qed

theorem reorder_moves_witness:
  "attachments (reorder ''3'' ''1''
      (initial\<lparr>attachments := [\<lparr>att_id = ''1'', att_name = ''A'', att_content = []\<rparr>,
        \<lparr>att_id = ''2'', att_name = ''B'', att_content = []\<rparr>,
        \<lparr>att_id = ''3'', att_name = ''C'', att_content = []\<rparr>]\<rparr>)) =
     [\<lparr>att_id = ''3'', att_name = ''C'', att_content = []\<rparr>,
      \<lparr>att_id = ''1'', att_name = ''A'', att_content = []\<rparr>,
      \<lparr>att_id = ''2'', att_name = ''B'', att_content = []\<rparr>]
   \<and> attachments (reorder ''9'' ''1''
      (initial\<lparr>attachments := [\<lparr>att_id = ''1'', att_name = ''A'', att_content = []\<rparr>]\<rparr>)) =
     [\<lparr>att_id = ''1'', att_name = ''A'', att_content = []\<rparr>]"
  using reorder_moves [of "''3''" "''1''"
      "initial\<lparr>attachments := [\<lparr>att_id = ''1'', att_name = ''A'', att_content = []\<rparr>,
        \<lparr>att_id = ''2'', att_name = ''B'', att_content = []\<rparr>,
        \<lparr>att_id = ''3'', att_name = ''C'', att_content = []\<rparr>]\<rparr>"]
    reorder_moves [of "''9''" "''1''"
      "initial\<lparr>attachments := [\<lparr>att_id = ''1'', att_name = ''A'', att_content = []\<rparr>]\<rparr>"]
  by (simp add: initial_def splice_insert_def splice_remove_def)

section \<open>The debounce\<close>

lemma perform_frame:
  "pending (perform a st) = pending st \<and> timer (perform a st) = timer st
   \<and> timer_count (perform a st) = timer_count st \<and> now (perform a st) = now st
   \<and> isOutputStable (perform a st) = isOutputStable st
   \<and> debouncedOutputMarkdown (perform a st) = debouncedOutputMarkdown st
   \<and> recomputed (perform a st) = recomputed st \<and> clipboard (perform a st) = clipboard st"
  by (cases a)
    (simp_all add: inputPrompt_def addEmptyAttachment_def addFromClipboard_def handleDrop_def
      selectAttachment_def startEditingName_def inputEditingName_def saveAttachmentName_def
      renameAttachment_def inputContent_def updateAttachmentContent_def deleteAttachment_def
      dragStart_def dragOver_def dragLeave_def dragEnd_def dropItem_def togglePreview_def
      Let_def split: option.splits)

lemma timers_ok_perform: "timers_ok st \<Longrightarrow> timers_ok (perform a st)"
  by (simp add: timers_ok_def recompute_pending_def perform_frame)

lemma recompute_pending_iff: "recompute_pending st \<longleftrightarrow> filter is_rec (pending st) \<noteq> []"
  by (force simp: recompute_pending_def is_rec_def filter_empty_conv)

lemma watcher_perform_frame:
  "promptText (watcher st) = promptText st \<and> attachments (watcher st) = attachments st
   \<and> now (watcher st) = now st \<and> recomputed (watcher st) = recomputed st
   \<and> timer_count (watcher st) = Suc (timer_count st)
   \<and> debouncedOutputMarkdown (watcher st) = debouncedOutputMarkdown st
   \<and> clipboard (watcher st) = clipboard st"
  by (simp add: watcher_def updateDebouncedOutput_def setTimeout_def clearTimeout_def Let_def
      split: option.splits)

lemma watcher_arms:
  assumes "timers_ok st"
  shows "timers_ok (watcher st)"
    and "filter is_rec (pending (watcher st)) = [(Suc (timer_count st), now st + 500, Recompute)]"
proof -
  from assms have d: "distinct (map fst (pending st))"
    and b: "\<forall>u \<in> set (pending st). 0 < fst u \<and> fst u \<le> timer_count st
              \<and> now st \<le> fst (snd u) \<and> (is_rec u \<longrightarrow> timer st = Some (fst u))"
    by (auto simp: timers_ok_def list_all_iff is_rec_def)
  define P where "P = (case timer st of None \<Rightarrow> pending st
                        | Some i \<Rightarrow> if i \<noteq> 0 then filter (\<lambda>t. fst t \<noteq> i) (pending st) else pending st)"
  have pw: "pending (watcher st) = P @ [(Suc (timer_count st), now st + 500, Recompute)]"
    and tw: "timer (watcher st) = Some (Suc (timer_count st))"
    and cw: "timer_count (watcher st) = Suc (timer_count st)"
    and sw: "isOutputStable (watcher st) = False"
    by (simp_all add: P_def watcher_def updateDebouncedOutput_def setTimeout_def clearTimeout_def
        Let_def split: option.splits)
  have sub: "set P \<subseteq> set (pending st)"
    by (auto simp: P_def split: option.splits)
  have dP: "distinct (map fst P)"
    using d by (auto simp: P_def distinct_map_filter split: option.splits)
  have norec: "\<forall>u \<in> set P. \<not> is_rec u"
  proof
    fix u assume u: "u \<in> set P"
    show "\<not> is_rec u"
    proof
      assume r: "is_rec u"
      from u sub have "u \<in> set (pending st)" by blast
      with b r have "timer st = Some (fst u)" and "0 < fst u" by auto
      with u show False by (simp add: P_def)
    qed
  qed
  then have fP: "filter is_rec P = []"
    by (simp add: filter_empty_conv)
  show "filter is_rec (pending (watcher st)) = [(Suc (timer_count st), now st + 500, Recompute)]"
    by (simp add: pw fP is_rec_def)
  have fresh: "Suc (timer_count st) \<notin> fst ` set P"
    using b sub by fastforce
  have "distinct (map fst (pending (watcher st)))"
    using dP fresh by (simp add: pw)
  moreover have "list_all (\<lambda>u. 0 < fst u \<and> fst u \<le> timer_count (watcher st)
                  \<and> now (watcher st) \<le> fst (snd u) \<and> (snd (snd u) = Recompute \<longrightarrow> timer (watcher st) = Some (fst u)))
                  (pending (watcher st))"
    using b sub norec by (fastforce simp: pw tw cw list_all_iff is_rec_def watcher_perform_frame)
  moreover have "isOutputStable (watcher st) = (\<not> recompute_pending (watcher st))"
    by (simp add: sw recompute_pending_def pw)
  moreover have "debouncedOutputMarkdown (watcher st) = last_output (recomputed (watcher st))"
    using assms by (simp add: watcher_perform_frame timers_ok_def)
  ultimately show "timers_ok (watcher st)"
    by (simp add: timers_ok_def)
qed

lemma fire_fields:
  "pending (fire t s) = filter (\<lambda>u. fst u \<noteq> fst t) (pending s)"
  "now (fire t s) = max (now s) (fst (snd t))"
  "promptText (fire t s) = promptText s"
  "attachments (fire t s) = attachments s"
  "timer (fire t s) = timer s"
  "timer_count (fire t s) = timer_count s"
  "clipboard (fire t s) = clipboard s"
  by (cases "snd (snd t)"; simp add: fire_def run_callback_def recompute_def)+

lemma fire_tip:
  assumes "\<not> is_rec t"
  shows "recomputed (fire t s) = recomputed s"
    and "isOutputStable (fire t s) = isOutputStable s"
    and "debouncedOutputMarkdown (fire t s) = debouncedOutputMarkdown s"
  using assms by (cases "snd (snd t)"; simp add: fire_def run_callback_def is_rec_def)+

lemma fire_rec:
  assumes "is_rec t"
  shows "recomputed (fire t s) =
           recomputed s @ [(max (now s) (fst (snd t)), compile (promptText s) (attachments s))]"
    and "isOutputStable (fire t s)"
    and "debouncedOutputMarkdown (fire t s) = compile (promptText s) (attachments s)"
  using assms by (simp_all add: fire_def run_callback_def is_rec_def recompute_def)

lemma fires_fields:
  "pending (foldl (\<lambda>s t. fire t s) s ts) = filter (\<lambda>u. fst u \<notin> fst ` set ts) (pending s)"
  "now (foldl (\<lambda>s t. fire t s) s ts) = foldl max (now s) (map (\<lambda>t. fst (snd t)) ts)"
  "promptText (foldl (\<lambda>s t. fire t s) s ts) = promptText s"
  "attachments (foldl (\<lambda>s t. fire t s) s ts) = attachments s"
  "timer (foldl (\<lambda>s t. fire t s) s ts) = timer s"
  "timer_count (foldl (\<lambda>s t. fire t s) s ts) = timer_count s"
  "clipboard (foldl (\<lambda>s t. fire t s) s ts) = clipboard s"
  by (induction ts arbitrary: s; simp add: fire_fields; metis)+

lemma fires_tips:
  assumes "\<forall>t \<in> set ts. \<not> is_rec t"
  shows "recomputed (foldl (\<lambda>s t. fire t s) s ts) = recomputed s"
    and "isOutputStable (foldl (\<lambda>s t. fire t s) s ts) = isOutputStable s"
    and "debouncedOutputMarkdown (foldl (\<lambda>s t. fire t s) s ts) = debouncedOutputMarkdown s"
  using assms by (induction ts arbitrary: s; simp add: fire_tip)+

lemma foldl_max_le: "n \<le> (T::nat) \<Longrightarrow> \<forall>d \<in> set ds. d \<le> T \<Longrightarrow> foldl max n ds \<le> T"
  by (induction ds arbitrary: n) simp_all

lemma foldl_max_ge: "(n::nat) \<le> foldl max n ds"
proof (induction ds arbitrary: n)
  case Nil
  then show ?case by simp
next
  case (Cons d ds)
  have "n \<le> max n d" by simp
  also have "\<dots> \<le> foldl max (max n d) ds" by (rule Cons.IH)
  finally show ?case by simp
qed

lemma timers_okD:
  assumes "timers_ok st"
  shows "distinct (map fst (pending st))"
    and "\<And>u. u \<in> set (pending st) \<Longrightarrow> 0 < fst u \<and> fst u \<le> timer_count st \<and> now st \<le> fst (snd u)"
    and "\<And>u. u \<in> set (pending st) \<Longrightarrow> is_rec u \<Longrightarrow> timer st = Some (fst u)"
    and "isOutputStable st = (\<not> recompute_pending st)"
    and "debouncedOutputMarkdown st = last_output (recomputed st)"
  using assms by (auto simp: timers_ok_def list_all_iff is_rec_def)

lemma same_id:
  assumes "distinct (map fst P)" and "u \<in> set P" and "v \<in> set P" and "fst u = fst v"
  shows "u = v"
  using assms by (meson distinct_map inj_onD)

lemma one_rec:
  assumes "timers_ok st" and "u \<in> set (pending st)" and "v \<in> set (pending st)"
    and "is_rec u" and "is_rec v"
  shows "u = v"
proof -
  have "timer st = Some (fst u)" and "timer st = Some (fst v)"
    using assms timers_okD(3) by blast+
  then have "fst u = fst v" by simp
  with assms timers_okD(1) show ?thesis by (blast intro: same_id)
qed

lemma advance_frame:
  "promptText (advance T st) = promptText st"
  "attachments (advance T st) = attachments st"
  "timer (advance T st) = timer st"
  "timer_count (advance T st) = timer_count st"
  "clipboard (advance T st) = clipboard st"
  by (simp_all add: advance_def Let_def fires_fields)

lemma advance_now: "now (advance T st) = max (now st) T"
proof -
  let ?ds = "map (\<lambda>t. fst (snd t)) (sort_key (\<lambda>t. fst (snd t)) (filter (\<lambda>t. fst (snd t) \<le> T) (pending st)))"
  have "\<forall>d \<in> set ?ds. d \<le> T" by auto
  then have "foldl max (now st) ?ds \<le> max (now st) T"
    by (intro foldl_max_le) auto
  moreover have "now st \<le> foldl max (now st) ?ds"
    by (rule foldl_max_ge)
  ultimately show ?thesis
    by (simp add: advance_def Let_def fires_fields)
qed

lemma advance_pending:
  assumes "timers_ok st"
  shows "pending (advance T st) = filter (\<lambda>u. T < fst (snd u)) (pending st)"
proof -
  have "\<And>u. u \<in> set (pending st) \<Longrightarrow>
          (fst u \<notin> fst ` {v \<in> set (pending st). fst (snd v) \<le> T}) = (T < fst (snd u))"
  proof -
    fix u assume u: "u \<in> set (pending st)"
    show "(fst u \<notin> fst ` {v \<in> set (pending st). fst (snd v) \<le> T}) = (T < fst (snd u))"
    proof
      assume "fst u \<notin> fst ` {v \<in> set (pending st). fst (snd v) \<le> T}"
      with u show "T < fst (snd u)" by force
    next
      assume late: "T < fst (snd u)"
      show "fst u \<notin> fst ` {v \<in> set (pending st). fst (snd v) \<le> T}"
      proof
        assume "fst u \<in> fst ` {v \<in> set (pending st). fst (snd v) \<le> T}"
        then obtain v where v: "v \<in> set (pending st)" "fst (snd v) \<le> T" "fst u = fst v"
          by auto
        with u timers_okD(1) [OF assms] have "u = v" by (blast intro: same_id)
        with v late show False by simp
      qed
    qed
  qed
  then show ?thesis
    by (auto simp: advance_def Let_def fires_fields intro!: filter_cong)
qed

lemma advance_quiet:
  assumes "\<forall>u \<in> set (pending st). is_rec u \<longrightarrow> T < fst (snd u)"
  shows "recomputed (advance T st) = recomputed st"
    and "isOutputStable (advance T st) = isOutputStable st"
    and "debouncedOutputMarkdown (advance T st) = debouncedOutputMarkdown st"
proof -
  have "\<forall>t \<in> set (sort_key (\<lambda>t. fst (snd t)) (filter (\<lambda>t. fst (snd t) \<le> T) (pending st))). \<not> is_rec t"
    using assms by auto
  then show "recomputed (advance T st) = recomputed st"
    and "isOutputStable (advance T st) = isOutputStable st"
    and "debouncedOutputMarkdown (advance T st) = debouncedOutputMarkdown st"
    by (simp_all add: advance_def Let_def fires_tips)
qed

lemma advance_fires:
  assumes ok: "timers_ok st" and r: "r \<in> set (pending st)" "is_rec r" and due: "fst (snd r) \<le> T"
  shows "recomputed (advance T st) =
           recomputed st @ [(fst (snd r), compile (promptText st) (attachments st))]"
    and "isOutputStable (advance T st)"
    and "debouncedOutputMarkdown (advance T st) = compile (promptText st) (attachments st)"
proof -
  define due where "due = sort_key (\<lambda>t. fst (snd t)) (filter (\<lambda>t. fst (snd t) \<le> T) (pending st))"
  have set_due: "set due = {u \<in> set (pending st). fst (snd u) \<le> T}"
    by (auto simp: due_def)
  have "distinct (pending st)"
    using timers_okD(1) [OF ok] by (simp add: distinct_map)
  then have dist: "distinct due"
    by (simp add: due_def)
  have sorted: "sorted (map (\<lambda>t. fst (snd t)) due)"
    by (simp add: due_def)
  from r due have "r \<in> set due" by (simp add: set_due)
  then obtain ts1 ts2 where split: "due = ts1 @ r # ts2"
    by (meson split_list)
  have notin: "r \<notin> set ts1" "r \<notin> set ts2"
    using dist by (auto simp: split)
  have tips: "\<forall>t \<in> set ts1 \<union> set ts2. \<not> is_rec t"
  proof
    fix t assume t: "t \<in> set ts1 \<union> set ts2"
    then have "t \<in> set due" by (auto simp: split)
    then have "t \<in> set (pending st)" by (simp add: set_due)
    show "\<not> is_rec t"
    proof
      assume "is_rec t"
      with ok \<open>t \<in> set (pending st)\<close> r have "t = r" by (blast intro: one_rec)
      with t notin show False by auto
    qed
  qed
  have early: "\<forall>d \<in> set (map (\<lambda>t. fst (snd t)) ts1). d \<le> fst (snd r)"
    using sorted by (auto simp: split sorted_append)
  let ?s1 = "foldl (\<lambda>s t. fire t s) st ts1"
  have "now st \<le> fst (snd r)"
    using timers_okD(2) [OF ok r(1)] by simp
  then have "now ?s1 \<le> fst (snd r)"
    using early by (simp add: fires_fields foldl_max_le)
  then have t1: "max (foldl max (now st) (map (\<lambda>t. fst (snd t)) ts1)) (fst (snd r)) = fst (snd r)"
    by (simp add: fires_fields)
  have adv: "advance T st = (foldl (\<lambda>s t. fire t s) (fire r ?s1) ts2)\<lparr>now := max (now (foldl (\<lambda>s t. fire t s) (fire r ?s1) ts2)) T\<rparr>"
    by (simp add: advance_def Let_def due_def [symmetric] split)
  show "recomputed (advance T st) =
           recomputed st @ [(fst (snd r), compile (promptText st) (attachments st))]"
    using tips r(2) by (simp add: adv fires_tips fire_rec t1 fires_fields)
  show "isOutputStable (advance T st)"
    using tips r(2) by (simp add: adv fires_tips fire_rec)
  show "debouncedOutputMarkdown (advance T st) = compile (promptText st) (attachments st)"
    using tips r(2) by (simp add: adv fires_tips fire_rec fires_fields)
qed

lemma last_output_snoc: "last_output (log @ [(n, out)]) = out"
  by (simp add: last_output_def)

lemma timers_ok_advance:
  assumes ok: "timers_ok st"
  shows "timers_ok (advance T st)"
proof -
  have d: "distinct (map fst (pending (advance T st)))"
    using timers_okD(1) [OF ok] by (simp add: advance_pending [OF ok] distinct_map_filter)
  have b: "list_all (\<lambda>u. 0 < fst u \<and> fst u \<le> timer_count (advance T st)
               \<and> now (advance T st) \<le> fst (snd u)
               \<and> (snd (snd u) = Recompute \<longrightarrow> timer (advance T st) = Some (fst u)))
             (pending (advance T st))"
    using timers_okD(2,3) [OF ok]
    by (auto simp: advance_pending [OF ok] advance_frame advance_now list_all_iff is_rec_def)
  show ?thesis
  proof (cases "\<exists>r \<in> set (pending st). is_rec r \<and> fst (snd r) \<le> T")
    case True
    then obtain r where r: "r \<in> set (pending st)" "is_rec r" "fst (snd r) \<le> T"
      by blast
    have none: "\<not> recompute_pending (advance T st)"
    proof
      assume "recompute_pending (advance T st)"
      then obtain u where u: "u \<in> set (pending st)" "T < fst (snd u)" "is_rec u"
        by (auto simp: recompute_pending_def advance_pending [OF ok] is_rec_def)
      with ok r have "u = r" by (blast intro: one_rec)
      with u r show False by simp
    qed
    show ?thesis
      using d b none advance_fires [OF ok r]
      by (simp add: timers_ok_def last_output_snoc)
  next
    case False
    then have q: "\<forall>u \<in> set (pending st). is_rec u \<longrightarrow> T < fst (snd u)"
      by auto
    have "recompute_pending (advance T st) = recompute_pending st"
      using q by (auto simp: recompute_pending_def advance_pending [OF ok] is_rec_def)
    then show ?thesis
      using d b timers_okD(4,5) [OF ok] by (simp add: timers_ok_def advance_quiet [OF q])
  qed
qed

lemma timers_ok_copy:
  assumes ok: "timers_ok st"
  shows "timers_ok (copyToClipboard fulfilled st)"
proof -
  have fresh: "Suc (timer_count st) \<notin> fst ` set (pending st)"
    using timers_okD(2) [OF ok] by fastforce
  then show ?thesis
    using ok
    by (auto simp: timers_ok_def copyToClipboard_def setTimeout_def recompute_pending_def
        list_all_iff)
qed

lemma timers_ok_initial: "timers_ok initial"
  by (simp add: timers_ok_def initial_def recompute_pending_def last_output_def)

lemma timers_ok_step: "timers_ok st \<Longrightarrow> timers_ok (step e st)"
  by (cases e) (simp_all add: timers_ok_perform watcher_arms(1) timers_ok_copy timers_ok_advance)

lemma timers_ok_run_events: "timers_ok st \<Longrightarrow> timers_ok (run_events es st)"
  unfolding run_events_def by (induction es arbitrary: st) (simp_all add: timers_ok_step)

lemma watcher_unstable: "\<not> isOutputStable (watcher st)"
  by (simp add: watcher_def updateDebouncedOutput_def setTimeout_def clearTimeout_def Let_def
      split: option.splits)

lemma edit_arms:
  assumes "timers_ok st"
  shows "timers_ok (step (Edit a) st)"
    and "filter is_rec (pending (step (Edit a) st)) = [(Suc (timer_count st), now st + 500, Recompute)]"
    and "now (step (Edit a) st) = now st"
    and "recomputed (step (Edit a) st) = recomputed st"
    and "debouncedOutputMarkdown (step (Edit a) st) = debouncedOutputMarkdown st"
    and "\<not> isOutputStable (step (Edit a) st)"
  using assms watcher_arms [of "perform a st"] timers_ok_perform [of st a]
  by (simp_all add: watcher_perform_frame perform_frame watcher_unstable)

lemma advance_armed_early:
  assumes ok: "timers_ok st" and one: "filter is_rec (pending st) = [r]" and early: "T < fst (snd r)"
  shows "filter is_rec (pending (advance T st)) = [r]"
    and "recomputed (advance T st) = recomputed st"
    and "debouncedOutputMarkdown (advance T st) = debouncedOutputMarkdown st"
    and "isOutputStable (advance T st) = isOutputStable st"
proof -
  have "filter is_rec (pending (advance T st)) =
          filter (\<lambda>u. T < fst (snd u)) (filter is_rec (pending st))"
    by (simp add: advance_pending [OF ok] conj_commute)
  then show "filter is_rec (pending (advance T st)) = [r]"
    using early by (simp add: one)
  have "\<And>u. u \<in> set (pending st) \<Longrightarrow> is_rec u \<Longrightarrow> u = r"
  proof -
    fix u assume "u \<in> set (pending st)" "is_rec u"
    then have "u \<in> set (filter is_rec (pending st))" by simp
    then show "u = r" by (simp add: one)
  qed
  then have quiet: "\<forall>u \<in> set (pending st). is_rec u \<longrightarrow> T < fst (snd u)"
    using early by auto
  show "recomputed (advance T st) = recomputed st"
    using quiet by (rule advance_quiet)
  show "debouncedOutputMarkdown (advance T st) = debouncedOutputMarkdown st"
    using quiet by (rule advance_quiet)
  show "isOutputStable (advance T st) = isOutputStable st"
    using quiet by (rule advance_quiet)
qed

lemma advance_armed_late:
  assumes ok: "timers_ok st" and one: "filter is_rec (pending st) = [r]" and late: "fst (snd r) \<le> T"
  shows "recomputed (advance T st) =
           recomputed st @ [(fst (snd r), compile (promptText st) (attachments st))]"
    and "isOutputStable (advance T st)"
    and "debouncedOutputMarkdown (advance T st) = compile (promptText st) (attachments st)"
proof -
  have "r \<in> set (filter is_rec (pending st))" by (simp add: one)
  then have r: "r \<in> set (pending st)" "is_rec r" by simp_all
  show "recomputed (advance T st) =
           recomputed st @ [(fst (snd r), compile (promptText st) (attachments st))]"
    using ok r late by (rule advance_fires)
  show "isOutputStable (advance T st)"
    using ok r late by (rule advance_fires)
  show "debouncedOutputMarkdown (advance T st) = compile (promptText st) (attachments st)"
    using ok r late by (rule advance_fires)
qed

text \<open>
  Claim C4. From any state reached from the initial one, let edits that trigger the
  watcher happen at the times \<open>t\<close>, \<open>t + 100\<close> and \<open>t + 200\<close> (the clock moving by timers
  only in between), and nothing after them. Then, whatever time \<open>T\<close> the clock reaches
  next: before \<open>t + 700\<close> the debounced function has not run again since the time \<open>t\<close>,
  the output is marked unstable and the debounced output is still what it was at the time
  \<open>t\<close>; from \<open>t + 700\<close> on the debounced function has run exactly once, at the time
  \<open>t + 700\<close>, the output is marked stable, and the debounced output is the compiled form of
  the document as the third edit left it.
\<close>

theorem debounce_three_edits:
  assumes reach: "st = run_events es initial" and start: "now st \<le> t"
  shows
    "(let s3 = run_events [Clock t, Edit a1, Clock (t + 100), Edit a2, Clock (t + 200), Edit a3] st in
       (T < t + 700 \<longrightarrow>
          recomputed (advance T s3) = recomputed (advance t st)
          \<and> \<not> isOutputStable (advance T s3)
          \<and> debouncedOutputMarkdown (advance T s3) = debouncedOutputMarkdown (advance t st))
     \<and> (t + 700 \<le> T \<longrightarrow>
          recomputed (advance T s3) =
            recomputed (advance t st) @ [(t + 700, compile (promptText s3) (attachments s3))]
          \<and> isOutputStable (advance T s3)
          \<and> debouncedOutputMarkdown (advance T s3) = compile (promptText s3) (attachments s3)))"
proof -
  define s0 where "s0 = advance t st"
  define s1 where "s1 = step (Edit a1) s0"
  define s1' where "s1' = advance (t + 100) s1"
  define s2 where "s2 = step (Edit a2) s1'"
  define s2' where "s2' = advance (t + 200) s2"
  define s3 where "s3 = step (Edit a3) s2'"
  have run: "run_events [Clock t, Edit a1, Clock (t + 100), Edit a2, Clock (t + 200), Edit a3] st = s3"
    by (simp add: run_events_def s0_def s1_def s1'_def s2_def s2'_def s3_def)
  have ok: "timers_ok st"
    unfolding reach by (rule timers_ok_run_events [OF timers_ok_initial])
  have ok0: "timers_ok s0" and now0: "now s0 = t"
    using ok start by (simp_all add: s0_def timers_ok_advance advance_now)
  note e1 = edit_arms [OF ok0, of a1, folded s1_def]
  have ok1': "timers_ok s1'" and now1': "now s1' = t + 100"
    using e1 now0 by (simp_all add: s1'_def timers_ok_advance advance_now)
  have log1': "recomputed s1' = recomputed s0"
    unfolding s1'_def using advance_armed_early(2) [OF e1(1) e1(2)] e1(4) now0 by simp
  have out1': "debouncedOutputMarkdown s1' = debouncedOutputMarkdown s0"
    unfolding s1'_def using advance_armed_early(3) [OF e1(1) e1(2)] e1(5) now0 by simp
  note e2 = edit_arms [OF ok1', of a2, folded s2_def]
  have ok2': "timers_ok s2'" and now2': "now s2' = t + 200"
    using e2 now1' by (simp_all add: s2'_def timers_ok_advance advance_now)
  have log2': "recomputed s2' = recomputed s0"
    unfolding s2'_def using advance_armed_early(2) [OF e2(1) e2(2)] e2(4) now1' log1' by simp
  have out2': "debouncedOutputMarkdown s2' = debouncedOutputMarkdown s0"
    unfolding s2'_def using advance_armed_early(3) [OF e2(1) e2(2)] e2(5) now1' out1' by simp
  note e3 = edit_arms [OF ok2', of a3, folded s3_def]
  have log3: "recomputed s3 = recomputed s0"
    using e3(4) log2' by simp
  have out3: "debouncedOutputMarkdown s3 = debouncedOutputMarkdown s0"
    using e3(5) out2' by simp
  have early: "T < t + 700 \<Longrightarrow> recomputed (advance T s3) = recomputed s0"
    using advance_armed_early(2) [OF e3(1) e3(2)] now2' log3 by simp
  have early_out: "T < t + 700 \<Longrightarrow> debouncedOutputMarkdown (advance T s3) = debouncedOutputMarkdown s0"
    using advance_armed_early(3) [OF e3(1) e3(2)] now2' out3 by simp
  have early_unstable: "T < t + 700 \<Longrightarrow> \<not> isOutputStable (advance T s3)"
    using advance_armed_early(4) [OF e3(1) e3(2)] now2' e3(6) by simp
  have late: "t + 700 \<le> T \<Longrightarrow>
      recomputed (advance T s3) = recomputed s0 @ [(t + 700, compile (promptText s3) (attachments s3))]"
    using advance_armed_late(1) [OF e3(1) e3(2)] now2' log3 by simp
  have late_stable: "t + 700 \<le> T \<Longrightarrow> isOutputStable (advance T s3)"
    using advance_armed_late(2) [OF e3(1) e3(2)] now2' by simp
  have late_out: "t + 700 \<le> T \<Longrightarrow>
      debouncedOutputMarkdown (advance T s3) = compile (promptText s3) (attachments s3)"
    using advance_armed_late(3) [OF e3(1) e3(2)] now2' by simp
  show ?thesis
    unfolding run Let_def
    using early early_out early_unstable late late_stable late_out by (simp add: s0_def)
qed

theorem debounce_three_edits_witness:
  "recomputed (advance 700
      (run_events [Clock 0, Edit (InputPrompt ''a''), Clock 100, Edit (InputPrompt ''ab''),
                   Clock 200, Edit (InputPrompt ''abc'')] initial)) =
     [(700, ''abc\<newline>\<newline>'')]
   \<and> debouncedOutputMarkdown (advance 700
      (run_events [Clock 0, Edit (InputPrompt ''a''), Clock 100, Edit (InputPrompt ''ab''),
                   Clock 200, Edit (InputPrompt ''abc'')] initial)) = ''abc\<newline>\<newline>''
   \<and> isOutputStable (advance 700
      (run_events [Clock 0, Edit (InputPrompt ''a''), Clock 100, Edit (InputPrompt ''ab''),
                   Clock 200, Edit (InputPrompt ''abc'')] initial))
   \<and> recomputed (advance 699
      (run_events [Clock 0, Edit (InputPrompt ''a''), Clock 100, Edit (InputPrompt ''ab''),
                   Clock 200, Edit (InputPrompt ''abc'')] initial)) = []
   \<and> debouncedOutputMarkdown (advance 699
      (run_events [Clock 0, Edit (InputPrompt ''a''), Clock 100, Edit (InputPrompt ''ab''),
                   Clock 200, Edit (InputPrompt ''abc'')] initial)) = []
   \<and> \<not> isOutputStable (advance 699
      (run_events [Clock 0, Edit (InputPrompt ''a''), Clock 100, Edit (InputPrompt ''ab''),
                   Clock 200, Edit (InputPrompt ''abc'')] initial))"
proof -
  have reach: "initial = run_events [] initial"
    by (simp add: run_events_def)
  have start: "now initial \<le> 0"
    by (simp add: initial_def)
  have base: "recomputed (advance 0 initial) = []"
    "debouncedOutputMarkdown (advance 0 initial) = []"
    by (simp_all add: advance_def initial_def)
  have doc: "promptText (run_events [Clock 0, Edit (InputPrompt ''a''), Clock 100, Edit (InputPrompt ''ab''),
                   Clock 200, Edit (InputPrompt ''abc'')] initial) = ''abc''
     \<and> attachments (run_events [Clock 0, Edit (InputPrompt ''a''), Clock 100, Edit (InputPrompt ''ab''),
                   Clock 200, Edit (InputPrompt ''abc'')] initial) = []"
    by (simp add: run_events_def advance_frame watcher_perform_frame inputPrompt_def initial_def)
  show ?thesis
    using debounce_three_edits [OF reach start, of "InputPrompt ''a''" "InputPrompt ''ab''"
        "InputPrompt ''abc''" 700]
      debounce_three_edits [OF reach start, of "InputPrompt ''a''" "InputPrompt ''ab''"
        "InputPrompt ''abc''" 699]
    by (simp add: Let_def base doc compile_def)
qed

text \<open>
  Claim C5. In every state reached from the initial one: while a recompute is pending the
  output is marked unstable and \<open>copyToClipboard\<close> changes nothing, the clipboard
  included; when none is pending the output is stable and a copy that the clipboard
  accepts puts exactly the debounced output there, which is the output of the latest
  recompute; and once the clock has reached the deadline of the pending recompute, none
  is pending and such a copy transfers the compiled form of the document.
\<close>

theorem copy_waits_for_recompute:
  assumes reach: "st = run_events es initial"
  shows "(recompute_pending st \<longrightarrow> \<not> isOutputStable st \<and> copyToClipboard fulfilled st = st)
       \<and> (\<not> recompute_pending st \<longrightarrow>
            isOutputStable st
            \<and> clipboard (copyToClipboard True st) = debouncedOutputMarkdown st
            \<and> debouncedOutputMarkdown st = last_output (recomputed st))
       \<and> (\<forall>r \<in> set (pending st). snd (snd r) = Recompute \<and> fst (snd r) \<le> T \<longrightarrow>
            \<not> recompute_pending (advance T st)
            \<and> clipboard (copyToClipboard True (advance T st)) =
                compile (promptText st) (attachments st))"
proof -
  have ok: "timers_ok st"
    unfolding reach by (rule timers_ok_run_events [OF timers_ok_initial])
  have stable: "isOutputStable st = (\<not> recompute_pending st)"
    by (rule timers_okD(4) [OF ok])
  have a: "recompute_pending st \<longrightarrow> \<not> isOutputStable st \<and> copyToClipboard fulfilled st = st"
    by (simp add: stable copyToClipboard_def)
  have b: "\<not> recompute_pending st \<longrightarrow>
            isOutputStable st
            \<and> clipboard (copyToClipboard True st) = debouncedOutputMarkdown st
            \<and> debouncedOutputMarkdown st = last_output (recomputed st)"
    using timers_okD(5) [OF ok] by (simp add: stable copyToClipboard_def setTimeout_def)
  have c: "\<forall>r \<in> set (pending st). snd (snd r) = Recompute \<and> fst (snd r) \<le> T \<longrightarrow>
            \<not> recompute_pending (advance T st)
            \<and> clipboard (copyToClipboard True (advance T st)) =
                compile (promptText st) (attachments st)"
  proof (intro ballI impI)
    fix r assume r: "r \<in> set (pending st)" and due: "snd (snd r) = Recompute \<and> fst (snd r) \<le> T"
    then have rec: "is_rec r" and late: "fst (snd r) \<le> T"
      by (simp_all add: is_rec_def)
    have settled: "isOutputStable (advance T st)"
      and out: "debouncedOutputMarkdown (advance T st) = compile (promptText st) (attachments st)"
      using advance_fires [OF ok r rec late] by simp_all
    have "isOutputStable (advance T st) = (\<not> recompute_pending (advance T st))"
      by (rule timers_okD(4) [OF timers_ok_advance [OF ok]])
    with settled out
    show "\<not> recompute_pending (advance T st)
            \<and> clipboard (copyToClipboard True (advance T st)) =
                compile (promptText st) (attachments st)"
      by (simp add: copyToClipboard_def setTimeout_def)
  qed
  from a b c show ?thesis by blast
qed

theorem copy_waits_for_recompute_witness:
  "copyToClipboard True (run_events [Edit (InputPrompt ''abc'')] initial) =
     run_events [Edit (InputPrompt ''abc'')] initial
   \<and> clipboard (copyToClipboard True (advance 500 (run_events [Edit (InputPrompt ''abc'')] initial))) =
       ''abc\<newline>\<newline>''"
proof -
  have reach: "run_events [Edit (InputPrompt ''abc'')] initial = run_events [Edit (InputPrompt ''abc'')] initial"
    by simp
  have p: "pending (run_events [Edit (InputPrompt ''abc'')] initial) = [(1, 500, Recompute)]"
    by (simp add: run_events_def watcher_def updateDebouncedOutput_def setTimeout_def Let_def
        inputPrompt_def initial_def)
  have doc: "promptText (run_events [Edit (InputPrompt ''abc'')] initial) = ''abc''
     \<and> attachments (run_events [Edit (InputPrompt ''abc'')] initial) = []"
    by (simp add: run_events_def watcher_perform_frame inputPrompt_def initial_def)
  show ?thesis
    using copy_waits_for_recompute [OF reach, of True 500]
    by (simp add: p doc recompute_pending_def compile_def)
qed

section \<open>Opening never reports a parse failure\<close>

lemma parse_unclosed: "parseXML ''<promptBuilder>'' = NotWellFormed"
  by (simp add: parseXML_def is_xml_char_def xml_declaration_def scan_def tag_name_def
      is_xml_space_def is_name_def is_name_start_def is_name_char_def in_range_def)

lemma alerts_loadDocument: "alerts (loadDocument gen xmlDoc st) = alerts st"
  by (simp add: loadDocument_def Let_def split: option.splits)

text \<open>
  Claim C7. The code departs from the claim. Whatever document the parser of the browser
  returns for the text of the file, well-formed or not, \<open>openFromXML\<close> shows no alert but
  the one for a file over the size limit: a parse failure is never reported, because
  \<open>parseFromString\<close> returns a document instead of throwing and the \<open>catch\<close> is never
  entered. What is loaded from a text that is not well-formed depends on the document the
  browser returns for it.
\<close>

theorem open_never_reports_parse_failure:
  "alerts (openFromXML parseFromString gen f st) =
     (if file_size f > maxSize then alerts st @ [FileTooLarge (file_name f)] else alerts st)
   \<and> (XmlParseFailed \<in> set (alerts (openFromXML parseFromString gen f st)) \<longleftrightarrow>
        XmlParseFailed \<in> set (alerts st))"
  by (simp add: openFromXML_def alerts_loadDocument)

text \<open>
  The text \<open><promptBuilder>\<close> is not well-formed. With the error document of the HTML
  Standard, and with one of the shape Chromium returns, no alert is shown.
\<close>

theorem open_never_reports_parse_failure_witness:
  "parseXML ''<promptBuilder>'' = NotWellFormed
   \<and> alerts (openFromXML reference_parser toString
        \<lparr>file_name = ''broken.xml'', file_size = 15, file_text = ''<promptBuilder>''\<rparr> initial) = []
   \<and> alerts (openFromXML
        (\<lambda>text. Element ''promptBuilder''
           [Element ''parsererror'' [Element ''h3'' [], Element ''div'' [], Element ''h3'' []]])
        toString
        \<lparr>file_name = ''broken.xml'', file_size = 15, file_text = ''<promptBuilder>''\<rparr> initial) = []"
  using open_never_reports_parse_failure [of reference_parser toString
      "\<lparr>file_name = ''broken.xml'', file_size = 15, file_text = ''<promptBuilder>''\<rparr>" initial]
    open_never_reports_parse_failure [of "\<lambda>text. Element ''promptBuilder''
           [Element ''parsererror'' [Element ''h3'' [], Element ''div'' [], Element ''h3'' []]]" toString
      "\<lparr>file_name = ''broken.xml'', file_size = 15, file_text = ''<promptBuilder>''\<rparr>" initial]
  by (simp add: parse_unclosed maxSize_def initial_def)

section \<open>Opening a document that holds no attachment\<close>

lemma parse_saved_empty:
  "parseXML (saveToXML initial) =
     Parsed (Element ''promptBuilder'' [Text ''\<newline>  '', Element ''prompt'' [Text []], Text ''\<newline>''])"
  by code_simp

lemma reference_parser_saved_empty:
  "reference_parser (saveToXML initial) =
     Element ''promptBuilder'' [Text ''\<newline>  '', Element ''prompt'' [Text []], Text ''\<newline>'']"
  by (simp add: reference_parser_def parse_saved_empty)

text \<open>
  Claim C8, as amended. For every text within the size limit, whatever parser the browser
  has: when the document parsed from it holds no \<open>attachment\<close> element, opening it leaves
  the attachment sequence exactly as it was; when it holds at least one, the sequence
  after opening does not depend on the attachments held before.
\<close>

theorem open_without_records_keeps_attachments:
  assumes "file_size f \<le> maxSize"
  shows "(doc_querySelectorAll ''attachment'' (parseFromString (file_text f)) = [] \<longrightarrow>
            attachments (openFromXML parseFromString gen f st) = attachments st)
       \<and> (doc_querySelectorAll ''attachment'' (parseFromString (file_text f)) \<noteq> [] \<longrightarrow>
            (\<forall>st2. attachments (openFromXML parseFromString gen f st) =
                   attachments (openFromXML parseFromString gen f st2)))"
  using assms
  by (simp add: openFromXML_def loadDocument_def Let_def split: option.splits)

theorem open_without_records_keeps_attachments_witness:
  "attachments
     (openFromXML reference_parser toString
        \<lparr>file_name = ''prompt_builder.xml'', file_size = 103, file_text = saveToXML initial\<rparr>
        (initial\<lparr>attachments := [\<lparr>att_id = ''1'', att_name = ''old'', att_content = ''x''\<rparr>]\<rparr>))
   = [\<lparr>att_id = ''1'', att_name = ''old'', att_content = ''x''\<rparr>]"
proof -
  let ?f = "\<lparr>file_name = ''prompt_builder.xml'', file_size = 103, file_text = saveToXML initial\<rparr>"
  have h: "file_size ?f \<le> maxSize"
    by (simp add: maxSize_def)
  show ?thesis
    using open_without_records_keeps_attachments [OF h, of reference_parser toString
        "initial\<lparr>attachments := [\<lparr>att_id = ''1'', att_name = ''old'', att_content = ''x''\<rparr>]\<rparr>"]
    by (simp add: reference_parser_saved_empty doc_querySelectorAll_def)
qed

text \<open>
  The claim C8 as stated fails: the text saved from the empty document is well-formed and
  holds no attachment record, and opening it in a state with one attachment leaves that
  attachment in the sequence.
\<close>

theorem attachments_survive_open:
  "parseXML (saveToXML initial) =
     Parsed (Element ''promptBuilder'' [Text ''\<newline>  '', Element ''prompt'' [Text []], Text ''\<newline>''])
   \<and> attachments
       (openFromXML reference_parser toString
          \<lparr>file_name = ''prompt_builder.xml'', file_size = 103, file_text = saveToXML initial\<rparr>
          (initial\<lparr>attachments := [\<lparr>att_id = ''1'', att_name = ''old'', att_content = ''x''\<rparr>]\<rparr>))
     \<noteq> []"
  by (simp add: parse_saved_empty reference_parser_saved_empty openFromXML_def maxSize_def
      loadDocument_def doc_querySelector_def doc_querySelectorAll_def js_or_def)

section \<open>Saving and opening again\<close>

lemma lex_drop: "lex k s = lex 0 (drop k s)"
proof (induction s arbitrary: k)
  case Nil
  then show ?case by simp
next
  case (Cons c cs)
  then show ?case by (cases k) simp_all
qed

lemma lex_scan:
  assumes "scan (c # cs) = Parsed (tok, n)" and "0 < n"
  shows "lex 0 (c # cs) = map_parsed ((#) tok) (lex 0 (drop n (c # cs)))"
proof -
  have "lex 0 (c # cs) = map_parsed ((#) tok) (lex (n - 1) cs)"
    using assms by simp
  also have "lex (n - 1) cs = lex 0 (drop (n - 1) cs)"
    by (rule lex_drop)
  also have "drop (n - 1) cs = drop n (c # cs)"
    using assms(2) by (simp add: drop_Cons')
  finally show ?thesis .
qed

lemma split_on_char: "c \<notin> set s \<Longrightarrow> split_on [c] (s @ c # r) = Some (s, r)"
  by (induction s) auto

lemma contains_set: "contains d s \<Longrightarrow> set d \<subseteq> set s"
proof (induction s)
  case Nil
  then show ?case by simp
next
  case (Cons c cs)
  then show ?case using set_mono_prefix by fastforce
qed

lemma no_cdata_end_across:
  assumes "\<not> contains '']]>'' (x # s)"
  shows "\<not> prefix '']]>'' (x # s @ '']]>'' @ r)"
proof (cases s)
  case Nil
  then show ?thesis by simp
next
  case (Cons y s')
  show ?thesis
  proof (cases s')
    case Nil
    with Cons show ?thesis by simp
  next
    case (Cons z s'')
    with \<open>s = y # s'\<close> assms show ?thesis by simp
  qed
qed

lemma split_on_cdata_end:
  "\<not> contains '']]>'' s \<Longrightarrow> split_on '']]>'' (s @ '']]>'' @ r) = Some (s, r)"
proof (induction s)
  case Nil
  then show ?case by simp
next
  case (Cons x s)
  have "\<not> prefix '']]>'' (x # s @ '']]>'' @ r)"
    using Cons.prems by (rule no_cdata_end_across)
  moreover have "\<not> contains '']]>'' s"
    using Cons.prems by simp
  ultimately show ?case
    using Cons.IH by simp
qed

lemma scan_otag:
  assumes "plain_name n"
  shows "scan (otag n @ r) = Parsed (TOpen n, length n + 2)"
proof -
  from assms obtain c n' where n: "n = c # n'" and c: "c \<noteq> CHR ''!''" "c \<noteq> CHR ''/''"
    by (auto simp: plain_name_def split: list.splits)
  have sp: "split_on ''>'' (n @ CHR ''>'' # r) = Some (n, r)"
    using assms by (intro split_on_char) (simp add: plain_name_def)
  have tn: "tag_name n = Some n"
    using assms by (simp add: plain_name_def)
  have "scan (CHR ''<'' # n @ CHR ''>'' # r) = Parsed (TOpen n, length n + 2)"
    unfolding scan_def using c sp tn by (simp add: n)
  then show ?thesis by (simp add: otag_def)
qed

lemma scan_ctag:
  assumes "plain_name n"
  shows "scan (ctag n @ r) = Parsed (TClose n, length n + 3)"
proof -
  have sp: "split_on ''>'' (n @ CHR ''>'' # r) = Some (n, r)"
    using assms by (intro split_on_char) (simp add: plain_name_def)
  have tn: "tag_name n = Some n"
    using assms by (simp add: plain_name_def)
  have "scan (CHR ''<'' # CHR ''/'' # n @ CHR ''>'' # r) = Parsed (TClose n, length n + 3)"
    unfolding scan_def using sp tn by simp
  then show ?thesis by (simp add: ctag_def)
qed

lemma scan_cdata:
  assumes "\<not> contains '']]>'' b"
  shows "scan (cdata b @ r) = Parsed (TCData b, length b + 12)"
proof -
  have "split_on '']]>'' (b @ '']]>'' @ r) = Some (b, r)"
    using assms by (rule split_on_cdata_end)
  then show ?thesis
    by (simp add: scan_def cdata_def)
qed

lemma indent_chars: "set (indent k) \<subseteq> {CHR 0x0A, CHR '' ''}"
  by (auto simp: indent_def)

lemma scan_indent: "scan (indent k @ CHR ''<'' # r) = Parsed (TText (indent k), Suc k)"
proof -
  have tw: "takeWhile (\<lambda>c. c \<noteq> CHR ''<'') (indent k @ CHR ''<'' # r) = indent k"
    using indent_chars [of k] by (subst takeWhile_append2) auto
  have nc: "\<not> contains '']]>'' (indent k)"
    using contains_set [of "'']]>''" "indent k"] indent_chars [of k] by auto
  have amp: "CHR ''&'' \<notin> set (indent k)"
    using indent_chars [of k] by auto
  have "\<not> prefix ''<'' (indent k @ CHR ''<'' # r)"
    by (simp add: indent_def)
  then have np: "\<not> prefix ''<![CDATA['' (indent k @ CHR ''<'' # r)"
    "\<not> prefix ''</'' (indent k @ CHR ''<'' # r)"
    by (simp_all add: indent_def)
  show ?thesis
    unfolding scan_def using np \<open>\<not> prefix ''<'' (indent k @ CHR ''<'' # r)\<close> tw nc amp
    by (simp add: Let_def indent_def)
qed

lemma lex_token:
  assumes "scan (xs @ r) = Parsed (tok, length xs)" and "xs \<noteq> []"
  shows "lex 0 (xs @ r) = map_parsed ((#) tok) (lex 0 r)"
proof -
  from assms(2) obtain c cs where xs: "xs = c # cs"
    by (cases xs) auto
  have "lex 0 (c # cs @ r) = map_parsed ((#) tok) (lex 0 (drop (length xs) (c # cs @ r)))"
    using assms(1) by (intro lex_scan) (simp_all add: xs)
  moreover have "drop (length xs) (c # cs @ r) = r"
    by (simp add: xs)
  ultimately show ?thesis
    by (simp add: xs del: lex.simps)
qed

lemma lex_otag: "plain_name n \<Longrightarrow> lex 0 (otag n @ r) = map_parsed ((#) (TOpen n)) (lex 0 r)"
  using scan_otag [of n r] by (intro lex_token) (simp_all add: otag_def)

lemma lex_ctag: "plain_name n \<Longrightarrow> lex 0 (ctag n @ r) = map_parsed ((#) (TClose n)) (lex 0 r)"
  using scan_ctag [of n r] by (intro lex_token) (simp_all add: ctag_def)

lemma lex_cdata:
  "\<not> contains '']]>'' b \<Longrightarrow> lex 0 (cdata b @ r) = map_parsed ((#) (TCData b)) (lex 0 r)"
  using scan_cdata [of b r] by (intro lex_token) (simp_all add: cdata_def)

lemma lex_indent:
  "lex 0 (indent k @ CHR ''<'' # r) = map_parsed ((#) (TText (indent k))) (lex 0 (CHR ''<'' # r))"
  using scan_indent [of k r] by (intro lex_token) (simp_all add: indent_def)

lemma lex_indent_otag:
  "lex 0 (indent k @ otag n @ r) = map_parsed ((#) (TText (indent k))) (lex 0 (otag n @ r))"
  using lex_indent [of k "n @ ''>'' @ r"] by (simp add: otag_def del: lex.simps)

lemma lex_indent_ctag:
  "lex 0 (indent k @ ctag n @ r) = map_parsed ((#) (TText (indent k))) (lex 0 (ctag n @ r))"
  using lex_indent [of k "CHR ''/'' # n @ ''>'' @ r"] by (simp add: ctag_def del: lex.simps)

lemma plain_names:
  "plain_name ''promptBuilder''" "plain_name ''prompt''" "plain_name ''attachments''"
  "plain_name ''attachment''" "plain_name ''name''" "plain_name ''content''"
  by code_simp+

lemmas lex_pieces = lex_otag lex_ctag lex_cdata lex_indent_otag lex_indent_ctag plain_names

lemma lex_att_text:
  assumes "\<not> contains '']]>'' (att_name a)" and "\<not> contains '']]>'' (att_content a)"
  shows "lex 0 (att_text a @ r) = map_parsed ((@) (att_tokens a)) (lex 0 r)"
  using assms by (cases "lex 0 r") (simp_all add: att_text_def att_tokens_def lex_pieces)

lemma lex_atts:
  assumes "\<forall>a \<in> set atts. \<not> contains '']]>'' (att_name a) \<and> \<not> contains '']]>'' (att_content a)"
  shows "lex 0 (concat (map att_text atts) @ r) = map_parsed ((@) (concat (map att_tokens atts))) (lex 0 r)"
  using assms
proof (induction atts)
  case Nil
  then show ?case by (cases "lex 0 r") simp_all
next
  case (Cons a atts)
  then show ?case by (cases "lex 0 r") (simp_all add: lex_att_text)
qed

lemma indents:
  "indent 0 = ''\<newline>''" "indent 2 = ''\<newline>  ''" "indent 4 = ''\<newline>    ''" "indent 6 = ''\<newline>      ''"
  by (simp_all add: indent_def eval_nat_numeral)

lemma att_text_shift:
  "CHR 0x0A # concat (map (\<lambda>a. ''    <attachment>\<newline>'' @
       ''      <name><![CDATA['' @ att_name a @ '']]></name>\<newline>'' @
       ''      <content><![CDATA['' @ att_content a @ '']]></content>\<newline>'' @
       ''    </attachment>\<newline>'') atts) =
   concat (map att_text atts) @ ''\<newline>''"
  by (induction atts) (simp_all add: att_text_def indents otag_def ctag_def cdata_def)

lemma saveToXML_pieces:
  "saveToXML st = xml_declaration @ saved_body (promptText st) (attachments st)"
proof (cases "attachments st = []")
  case True
  then show ?thesis
    by (simp add: saveToXML_def saved_body_def xml_declaration_def indents otag_def ctag_def cdata_def)
next
  case False
  have "saveToXML st =
      xml_declaration @ ''\<newline><promptBuilder>\<newline>  <prompt><![CDATA['' @ promptText st @
      '']]></prompt>\<newline>  <attachments>'' @
      (CHR 0x0A # concat (map (\<lambda>a. ''    <attachment>\<newline>'' @
         ''      <name><![CDATA['' @ att_name a @ '']]></name>\<newline>'' @
         ''      <content><![CDATA['' @ att_content a @ '']]></content>\<newline>'' @
         ''    </attachment>\<newline>'') (attachments st))) @
      ''  </attachments>\<newline></promptBuilder>''"
    using False by (simp add: saveToXML_def xml_declaration_def foldl_append_concat)
  also have "\<dots> = xml_declaration @ saved_body (promptText st) (attachments st)"
    unfolding att_text_shift using False
    by (simp add: saved_body_def indents otag_def ctag_def cdata_def)
  finally show ?thesis .
qed

lemma lex_end: "lex 0 (indent 0 @ ctag ''promptBuilder'') = Parsed [TText (indent 0), TClose ''promptBuilder'']"
  using lex_indent_ctag [of 0 "''promptBuilder''" "[]"] lex_ctag [of "''promptBuilder''" "[]"]
  by (simp add: plain_names del: lex.simps(3))

lemma lex_saved_body:
  assumes "\<not> contains '']]>'' p"
    and "\<forall>a \<in> set atts. \<not> contains '']]>'' (att_name a) \<and> \<not> contains '']]>'' (att_content a)"
  shows "lex 0 (saved_body p atts) = Parsed (doc_tokens p atts)"
  using assms
  by (simp add: saved_body_def doc_tokens_def lex_pieces lex_atts lex_end del: lex.simps(3))

lemma build_att:
  "build ((m, cs) # stack) roots (att_tokens a @ ts) =
     build ((m, att_elem a # Text (indent 4) # cs) # stack) roots ts"
  by (simp add: att_tokens_def att_elem_def)

lemma build_atts:
  "build ((m, cs) # stack) roots (concat (map att_tokens atts) @ ts) =
     build ((m, rev (concat (map (\<lambda>a. [Text (indent 4), att_elem a]) atts)) @ cs) # stack) roots ts"
  by (induction atts arbitrary: cs) (simp_all add: build_att)

lemma indent_space: "list_all is_xml_space (indent k)"
  by (simp add: indent_def is_xml_space_def list_all_iff)

lemma build_doc_tokens: "build [] [] (doc_tokens p atts) = Parsed (doc_tree p atts)"
  by (simp add: doc_tokens_def doc_tree_def build_atts indent_space)

lemma clean_append: "clean (a @ b) = (clean a \<and> clean b)"
  by (simp add: clean_def)

lemma clean_Nil: "clean []"
  by (simp add: clean_def)

lemma clean_tags:
  "clean xml_declaration"
  "clean (otag ''promptBuilder'')" "clean (ctag ''promptBuilder'')"
  "clean (otag ''prompt'')" "clean (ctag ''prompt'')"
  "clean (otag ''attachments'')" "clean (ctag ''attachments'')"
  "clean (otag ''attachment'')" "clean (ctag ''attachment'')"
  "clean (otag ''name'')" "clean (ctag ''name'')"
  "clean (otag ''content'')" "clean (ctag ''content'')"
  by code_simp+

lemma clean_indent: "clean (indent k)"
  by (simp add: clean_def indent_def is_xml_char_def list_all_iff)

lemma clean_cdata: "clean (cdata b) = clean b"
  by (simp add: clean_def cdata_def is_xml_char_def)

lemma clean_atts:
  "\<forall>a \<in> set atts. clean (att_name a) \<and> clean (att_content a) \<Longrightarrow> clean (concat (map att_text atts))"
  by (induction atts)
    (simp_all add: att_text_def clean_append clean_tags clean_indent clean_cdata, simp add: clean_def)

lemma clean_saved:
  assumes "clean p" and "\<forall>a \<in> set atts. clean (att_name a) \<and> clean (att_content a)"
  shows "clean (xml_declaration @ saved_body p atts)"
  using assms
  by (simp add: saved_body_def clean_append clean_tags clean_indent clean_cdata clean_atts clean_Nil)

lemma normalize_eol_clean: "CHR 0x0D \<notin> set s \<Longrightarrow> normalize_eol s = s"
  by (induction s rule: normalize_eol.induct) auto

lemma cdata_safe_clean: "cdata_safe s \<Longrightarrow> clean s \<and> \<not> contains '']]>'' s"
  by (auto simp: cdata_safe_def clean_def list_all_iff)

lemma parseXML_saved:
  assumes "cdata_safe (promptText st)"
    and "\<forall>a \<in> set (attachments st). cdata_safe (att_name a) \<and> cdata_safe (att_content a)"
  shows "parseXML (saveToXML st) = Parsed (doc_tree (promptText st) (attachments st))"
proof -
  let ?s = "xml_declaration @ saved_body (promptText st) (attachments st)"
  have "clean ?s"
    using assms cdata_safe_clean by (intro clean_saved) auto
  then have chars: "list_all is_xml_char ?s" and cr: "CHR 0x0D \<notin> set ?s"
    by (auto simp: clean_def list_all_iff)
  have norm: "normalize_eol ?s = ?s"
    using cr by (rule normalize_eol_clean)
  have "lex 0 (saved_body (promptText st) (attachments st)) =
          Parsed (doc_tokens (promptText st) (attachments st))"
    using assms cdata_safe_clean by (intro lex_saved_body) auto
  then show ?thesis
    using chars by (simp add: parseXML_def saveToXML_pieces norm build_doc_tokens Let_def)
qed

lemma select_prompt: "doc_querySelector ''prompt'' (doc_tree p atts) = Some (Element ''prompt'' [Text p])"
  by (simp add: doc_querySelector_def doc_querySelectorAll_def doc_tree_def)

lemma attachment_elements:
  "filter (\<lambda>e. tagName e = ''attachment'')
     (concat (map elements (concat (map (\<lambda>a. [Text (indent 4), att_elem a]) atts)))) =
   map att_elem atts"
  by (induction atts) (simp_all add: att_elem_def)

lemma select_attachments: "doc_querySelectorAll ''attachment'' (doc_tree p atts) = map att_elem atts"
  using attachment_elements [of atts]
  by (simp add: doc_querySelectorAll_def doc_tree_def)

lemma loadAttachment_elem:
  "loadAttachment gen acc (att_elem a) =
     acc @ [\<lparr>att_id = gen (length acc), att_name = js_or (att_name a) ''Untitled'',
              att_content = att_content a\<rparr>]"
  by (simp add: loadAttachment_def att_elem_def querySelector_def querySelectorAll_def js_or_def)

lemma foldl_loadAttachment:
  "foldl (loadAttachment gen) acc (map att_elem atts) =
     acc @ map (\<lambda>ka. \<lparr>att_id = gen (fst ka), att_name = js_or (att_name (snd ka)) ''Untitled'',
                       att_content = att_content (snd ka)\<rparr>)
             (enumerate (length acc) atts)"
  by (induction atts arbitrary: acc) (simp_all add: loadAttachment_elem)

lemma loadDocument_saved:
  "loadDocument gen (doc_tree p atts) st =
     (if atts = [] then st\<lparr>promptText := p\<rparr>
      else st\<lparr>promptText := p,
              attachments := map (\<lambda>ka. \<lparr>att_id = gen (fst ka),
                                           att_name = js_or (att_name (snd ka)) ''Untitled'',
                                           att_content = att_content (snd ka)\<rparr>)
                               (enumerate 0 atts)\<rparr>)"
  using foldl_loadAttachment [of gen "[]" atts]
  by (simp add: loadDocument_def select_prompt select_attachments js_or_def)

lemma map_snd_enum: "map (\<lambda>ka. h (snd ka)) (enumerate n xs) = map h xs"
  by (induction xs arbitrary: n) simp_all

lemma map_fst_enum: "map (\<lambda>ka. g (fst ka)) (enumerate n xs) = map g [n..<n + length xs]"
proof -
  have "map (\<lambda>ka. g (fst ka)) (enumerate n xs) = map (g \<circ> fst) (enumerate n xs)"
    by (simp add: o_def)
  also have "\<dots> = map g (map fst (enumerate n xs))"
    by (simp only: map_map)
  also have "\<dots> = map g [n..<n + length xs]"
    by (simp only: map_fst_enumerate)
  finally show ?thesis .
qed

lemma xml_parser_reference: "xml_parser reference_parser"
  by (simp add: xml_parser_def reference_parser_def)

lemma openFromXML_saved:
  assumes "xml_parser parseFromString"
    and "cdata_safe (promptText d)"
    and "\<forall>a \<in> set (attachments d). cdata_safe (att_name a) \<and> cdata_safe (att_content a)"
    and "file_text f = saveToXML d" and "file_size f \<le> maxSize"
  shows "openFromXML parseFromString gen f st =
           loadDocument gen (doc_tree (promptText d) (attachments d)) st"
proof -
  have "parseXML (file_text f) = Parsed (doc_tree (promptText d) (attachments d))"
    using assms(2,3) by (simp add: assms(4) parseXML_saved)
  then have "parseFromString (file_text f) = doc_tree (promptText d) (attachments d)"
    using assms(1) by (simp add: xml_parser_def)
  then show ?thesis
    using assms(5) by (simp add: openFromXML_def)
qed

lemma named_js_or: "\<forall>a \<in> set atts. att_name a \<noteq> [] \<Longrightarrow>
    map (\<lambda>a. (js_or (att_name a) ''Untitled'', att_content a)) atts =
    map (\<lambda>a. (att_name a, att_content a)) atts"
  by (simp add: js_or_def)

text \<open>
  Claim C2, as amended. Let the parser of the browser agree with XML. Let the prompt text,
  the names and the contents of a document be texts that a CDATA section returns as they
  are (characters XML allows, no carriage return, no end mark of a CDATA section), the
  names non-empty as the data model has them, and the saved text within the size limit of
  the import. Opening the saved text sets the prompt text to the document's. If the
  document has an attachment, or the model it is opened in holds none, the attachment
  sequence becomes the document's (name, content) pairs in order, each attachment with
  the identifier generated for it while loading.
\<close>

theorem save_open_roundtrip:
  assumes "xml_parser parseFromString"
    and "cdata_safe (promptText d)"
    and "\<forall>a \<in> set (attachments d).
           att_name a \<noteq> [] \<and> cdata_safe (att_name a) \<and> cdata_safe (att_content a)"
    and "file_text f = saveToXML d" and "file_size f \<le> maxSize"
  shows "promptText (openFromXML parseFromString gen f st) = promptText d
       \<and> (attachments d \<noteq> [] \<or> attachments st = [] \<longrightarrow>
            map (\<lambda>a. (att_name a, att_content a)) (attachments (openFromXML parseFromString gen f st)) =
              map (\<lambda>a. (att_name a, att_content a)) (attachments d)
            \<and> map att_id (attachments (openFromXML parseFromString gen f st)) =
                map gen [0..<length (attachments d)])"
proof -
  have safe: "\<forall>a \<in> set (attachments d). cdata_safe (att_name a) \<and> cdata_safe (att_content a)"
    using assms(3) by simp
  have named: "\<forall>a \<in> set (attachments d). att_name a \<noteq> []"
    using assms(3) by simp
  have opened: "openFromXML parseFromString gen f st =
      loadDocument gen (doc_tree (promptText d) (attachments d)) st"
    using assms(1,2) safe assms(4,5) by (rule openFromXML_saved)
  show ?thesis
    using map_snd_enum [of "\<lambda>a. (js_or (att_name a) ''Untitled'', att_content a)" 0 "attachments d"]
      map_fst_enum [of gen 0 "attachments d"] named_js_or [OF named]
    by (auto simp: opened loadDocument_saved o_def)
qed

theorem save_open_roundtrip_witness:
  "promptText (openFromXML reference_parser toString
        \<lparr>file_name = ''prompt_builder.xml'', file_size = 271,
         file_text = saveToXML (initial\<lparr>promptText := ''Summarize: <b> & more'',
           attachments := [\<lparr>att_id = ''17'', att_name = ''doc1'', att_content = ''hello''\<rparr>]\<rparr>)\<rparr>
        initial) = ''Summarize: <b> & more''
   \<and> map (\<lambda>a. (att_name a, att_content a))
       (attachments (openFromXML reference_parser toString
        \<lparr>file_name = ''prompt_builder.xml'', file_size = 271,
         file_text = saveToXML (initial\<lparr>promptText := ''Summarize: <b> & more'',
           attachments := [\<lparr>att_id = ''17'', att_name = ''doc1'', att_content = ''hello''\<rparr>]\<rparr>)\<rparr>
        initial)) = [(''doc1'', ''hello'')]
   \<and> map att_id
       (attachments (openFromXML reference_parser toString
        \<lparr>file_name = ''prompt_builder.xml'', file_size = 271,
         file_text = saveToXML (initial\<lparr>promptText := ''Summarize: <b> & more'',
           attachments := [\<lparr>att_id = ''17'', att_name = ''doc1'', att_content = ''hello''\<rparr>]\<rparr>)\<rparr>
        initial)) = [''0'']"
proof -
  let ?d = "initial\<lparr>promptText := ''Summarize: <b> & more'',
           attachments := [\<lparr>att_id = ''17'', att_name = ''doc1'', att_content = ''hello''\<rparr>]\<rparr>"
  let ?f = "\<lparr>file_name = ''prompt_builder.xml'', file_size = 271, file_text = saveToXML ?d\<rparr>"
  have "cdata_safe ''Summarize: <b> & more''"
    by code_simp
  then have h1: "cdata_safe (promptText ?d)"
    by simp
  have "cdata_safe ''doc1'' \<and> cdata_safe ''hello''"
    by code_simp
  then have h2: "\<forall>a \<in> set (attachments ?d).
      att_name a \<noteq> [] \<and> cdata_safe (att_name a) \<and> cdata_safe (att_content a)"
    by (simp add: initial_def)
  have h3: "file_text ?f = saveToXML ?d"
    by simp
  have h4: "file_size ?f \<le> maxSize"
    by (simp add: maxSize_def)
  have t0: "toString 0 = ''0''"
    by code_simp
  show ?thesis
    using save_open_roundtrip [OF xml_parser_reference h1 h2 h3 h4, of toString initial]
    by (simp add: initial_def t0)
qed



lemma length_saved_prompt_only:
  "attachments d = [] \<Longrightarrow> length (saveToXML d) = 103 + length (promptText d)"
  by (simp add: saveToXML_def)

text \<open>
  The claim C2 as stated fails. A content with a carriage return and a line feed comes
  back with the line feed alone. A content that holds the end mark of a CDATA section
  comes back without it. A document whose saved text is over the size limit is refused
  when opened, and the prompt text stays what it was. A document without attachments,
  opened in a model that holds an attachment, leaves that attachment in the sequence.
  A prompt text with a character that XML does not allow is saved as a text that is not
  well-formed.
\<close>

theorem saved_text_not_restored:
  "map (\<lambda>a. (att_name a, att_content a))
     (attachments (openFromXML reference_parser toString
        \<lparr>file_name = ''prompt_builder.xml'', file_size = 246,
         file_text = saveToXML
           (initial\<lparr>attachments := [\<lparr>att_id = ''1'', att_name = ''n'',
              att_content = [CHR ''a'', CHR 0x0D, CHR 0x0A, CHR ''b'']\<rparr>]\<rparr>)\<rparr>
        initial))
   = [(''n'', [CHR ''a'', CHR 0x0A, CHR ''b''])]
   \<and> map (\<lambda>a. (att_name a, att_content a))
     (attachments (openFromXML reference_parser toString
        \<lparr>file_name = ''prompt_builder.xml'', file_size = 256,
         file_text = saveToXML
           (initial\<lparr>attachments := [\<lparr>att_id = ''1'', att_name = ''n'',
              att_content = ''a]]><![CDATA[b''\<rparr>]\<rparr>)\<rparr>
        initial))
   = [(''n'', ''ab'')]
   \<and> length (saveToXML (initial\<lparr>promptText := replicate 1048576 (CHR ''a'')\<rparr>)) = 1048679
   \<and> promptText (openFromXML reference_parser toString
        \<lparr>file_name = ''prompt_builder.xml'', file_size = 1048679,
         file_text = saveToXML (initial\<lparr>promptText := replicate 1048576 (CHR ''a'')\<rparr>)\<rparr>
        initial)
   = []
   \<and> attachments (openFromXML reference_parser toString
        \<lparr>file_name = ''prompt_builder.xml'', file_size = 113,
         file_text = saveToXML (initial\<lparr>promptText := ''Summarize:''\<rparr>)\<rparr>
        (initial\<lparr>attachments := [\<lparr>att_id = ''1'', att_name = ''old'', att_content = ''x''\<rparr>]\<rparr>))
   = [\<lparr>att_id = ''1'', att_name = ''old'', att_content = ''x''\<rparr>]
   \<and> parseXML (saveToXML (initial\<lparr>promptText := [CHR 0x01]\<rparr>)) = NotWellFormed"
proof -
  have cr: "parseXML (saveToXML
           (initial\<lparr>attachments := [\<lparr>att_id = ''1'', att_name = ''n'',
              att_content = [CHR ''a'', CHR 0x0D, CHR 0x0A, CHR ''b'']\<rparr>]\<rparr>)) =
     Parsed (Element ''promptBuilder''
       [Text ''\<newline>  '', Element ''prompt'' [Text []], Text ''\<newline>  '',
        Element ''attachments''
          [Text ''\<newline>    '',
           Element ''attachment''
             [Text ''\<newline>      '', Element ''name'' [Text ''n''], Text ''\<newline>      '',
              Element ''content'' [Text ''a\<newline>b''], Text ''\<newline>    ''],
           Text ''\<newline>  ''],
        Text ''\<newline>''])"
    by code_simp
  have a: "map (\<lambda>a. (att_name a, att_content a))
     (attachments (openFromXML reference_parser toString
        \<lparr>file_name = ''prompt_builder.xml'', file_size = 246,
         file_text = saveToXML
           (initial\<lparr>attachments := [\<lparr>att_id = ''1'', att_name = ''n'',
              att_content = [CHR ''a'', CHR 0x0D, CHR 0x0A, CHR ''b'']\<rparr>]\<rparr>)\<rparr>
        initial))
   = [(''n'', [CHR ''a'', CHR 0x0A, CHR ''b''])]"
    by (simp add: cr openFromXML_def maxSize_def reference_parser_def loadDocument_def
        doc_querySelector_def doc_querySelectorAll_def loadAttachment_def querySelector_def
        querySelectorAll_def js_or_def)
  have ce: "parseXML (saveToXML
           (initial\<lparr>attachments := [\<lparr>att_id = ''1'', att_name = ''n'', att_content = ''a]]><![CDATA[b''\<rparr>]\<rparr>)) =
     Parsed (Element ''promptBuilder''
       [Text ''\<newline>  '', Element ''prompt'' [Text []], Text ''\<newline>  '',
        Element ''attachments''
          [Text ''\<newline>    '',
           Element ''attachment''
             [Text ''\<newline>      '', Element ''name'' [Text ''n''], Text ''\<newline>      '',
              Element ''content'' [Text ''a'', Text ''b''], Text ''\<newline>    ''],
           Text ''\<newline>  ''],
        Text ''\<newline>''])"
    by code_simp
  have b: "map (\<lambda>a. (att_name a, att_content a))
     (attachments (openFromXML reference_parser toString
        \<lparr>file_name = ''prompt_builder.xml'', file_size = 256,
         file_text = saveToXML
           (initial\<lparr>attachments := [\<lparr>att_id = ''1'', att_name = ''n'',
              att_content = ''a]]><![CDATA[b''\<rparr>]\<rparr>)\<rparr>
        initial))
   = [(''n'', ''ab'')]"
    by (simp add: ce openFromXML_def maxSize_def reference_parser_def loadDocument_def
        doc_querySelector_def doc_querySelectorAll_def loadAttachment_def querySelector_def
        querySelectorAll_def js_or_def)
  have c1: "length (saveToXML (initial\<lparr>promptText := replicate 1048576 (CHR ''a'')\<rparr>)) = 1048679"
    by (simp add: length_saved_prompt_only initial_def)
  have c2: "promptText (openFromXML reference_parser toString
        \<lparr>file_name = ''prompt_builder.xml'', file_size = 1048679,
         file_text = saveToXML (initial\<lparr>promptText := replicate 1048576 (CHR ''a'')\<rparr>)\<rparr>
        initial)
   = []"
    by (simp add: openFromXML_def maxSize_def initial_def)
  let ?d = "initial\<lparr>promptText := ''Summarize:''\<rparr>"
  let ?f = "\<lparr>file_name = ''prompt_builder.xml'', file_size = 113, file_text = saveToXML ?d\<rparr>"
  have "cdata_safe ''Summarize:''"
    by code_simp
  then have h1: "cdata_safe (promptText ?d)"
    by simp
  have h2: "\<forall>a \<in> set (attachments ?d). cdata_safe (att_name a) \<and> cdata_safe (att_content a)"
    by (simp add: initial_def)
  have h3: "file_text ?f = saveToXML ?d"
    by simp
  have h4: "file_size ?f \<le> maxSize"
    by (simp add: maxSize_def)
  have d: "attachments (openFromXML reference_parser toString ?f
        (initial\<lparr>attachments := [\<lparr>att_id = ''1'', att_name = ''old'', att_content = ''x''\<rparr>]\<rparr>))
   = [\<lparr>att_id = ''1'', att_name = ''old'', att_content = ''x''\<rparr>]"
    unfolding openFromXML_saved [OF xml_parser_reference h1 h2 h3 h4]
    by (simp add: loadDocument_saved initial_def)
  have e: "parseXML (saveToXML (initial\<lparr>promptText := [CHR 0x01]\<rparr>)) = NotWellFormed"
    by code_simp
  from a b c1 c2 d e show ?thesis
    by (intro conjI)
qed

section \<open>A selection left on an attachment that is gone\<close>

text \<open>
  The claim C10 as stated fails. After an attachment is added, which selects it, and a
  saved file with one attachment is opened, the attachment sequence holds only the loaded
  attachment while the selection still names the one added before. Deleting that
  identifier, which is absent from the sequence, changes the selection to \<open>null\<close>.
\<close>

theorem stale_selection_cleared:
  "''1'' \<notin> set (map att_id (attachments
      (openFromXML reference_parser toString
         \<lparr>file_name = ''prompt_builder.xml'', file_size = 243,
          file_text = saveToXML
            (initial\<lparr>attachments := [\<lparr>att_id = ''7'', att_name = ''n'', att_content = ''x''\<rparr>]\<rparr>)\<rparr>
         (addEmptyAttachment ''1'' initial))))
   \<and> selectedAttachmentId
      (openFromXML reference_parser toString
         \<lparr>file_name = ''prompt_builder.xml'', file_size = 243,
          file_text = saveToXML
            (initial\<lparr>attachments := [\<lparr>att_id = ''7'', att_name = ''n'', att_content = ''x''\<rparr>]\<rparr>)\<rparr>
         (addEmptyAttachment ''1'' initial)) = Some ''1''
   \<and> selectedAttachmentId
      (deleteAttachment ''1''
        (openFromXML reference_parser toString
           \<lparr>file_name = ''prompt_builder.xml'', file_size = 243,
            file_text = saveToXML
              (initial\<lparr>attachments := [\<lparr>att_id = ''7'', att_name = ''n'', att_content = ''x''\<rparr>]\<rparr>)\<rparr>
           (addEmptyAttachment ''1'' initial))) = None"
proof -
  let ?d = "initial\<lparr>attachments := [\<lparr>att_id = ''7'', att_name = ''n'', att_content = ''x''\<rparr>]\<rparr>"
  let ?f = "\<lparr>file_name = ''prompt_builder.xml'', file_size = 243, file_text = saveToXML ?d\<rparr>"
  have safe: "cdata_safe [] \<and> cdata_safe ''n'' \<and> cdata_safe ''x''"
    by code_simp
  then have h1: "cdata_safe (promptText ?d)"
    by (simp add: initial_def)
  have h2: "\<forall>a \<in> set (attachments ?d). cdata_safe (att_name a) \<and> cdata_safe (att_content a)"
    using safe by (simp add: initial_def)
  have h3: "file_text ?f = saveToXML ?d"
    by simp
  have h4: "file_size ?f \<le> maxSize"
    by (simp add: maxSize_def)
  have t0: "toString 0 = ''0''"
    by code_simp
  have opened: "openFromXML reference_parser toString ?f (addEmptyAttachment ''1'' initial) =
      loadDocument toString (doc_tree (promptText ?d) (attachments ?d))
        (addEmptyAttachment ''1'' initial)"
    using xml_parser_reference h1 h2 h3 h4 by (rule openFromXML_saved)
  show ?thesis
    unfolding opened
    by (simp add: loadDocument_saved initial_def addEmptyAttachment_def selectAttachment_def
        deleteAttachment_def t0 js_or_def)
qed

end
